theory Spec2Isabelle
  imports Main "HOL-Library.AList"
begin

section \<open>Data model of \<^verbatim>\<open>lib/storage.js\<close>\<close>

text \<open>
  A JavaScript object is an association list: \<^const>\<open>map_of\<close> reads a property
  (\<open>None\<close> is \<^verbatim>\<open>undefined\<close>), \<^const>\<open>AList.update\<close> assigns one (in place when
  the key exists, at the end otherwise, which is the enumeration order of
  \<^verbatim>\<open>for (var i in o)\<close>), \<^const>\<open>AList.delete\<close> is \<^verbatim>\<open>delete o[k]\<close>, and
  \<open>map fst\<close> lists the keys as \<^verbatim>\<open>Object.keys\<close> and \<^verbatim>\<open>for .. in\<close> see them.
\<close>

text \<open>
  An error object. \<^verbatim>\<open>Error\<close> is the constructor of \<^verbatim>\<open>http-errors\<close> here
  (\<^verbatim>\<open>var Error = require('http-errors')\<close>): \<^verbatim>\<open>Error[409]('..')\<close> makes an error of status
  409, and \<^verbatim>\<open>Error('..')\<close>, with a message alone, one of status 500. An error that
  comes from elsewhere (the file system of the store, an exception of the
  validator) may carry no status.
\<close>

record error =
  status :: "nat option"
  message :: string

definition http_error :: "nat \<Rightarrow> string \<Rightarrow> error" where
  "http_error code msg = \<lparr>status = Some code, message = msg\<rparr>"

definition plain_error :: "string \<Rightarrow> error" where
  "plain_error msg = \<lparr>status = None, message = msg\<rparr>"

text \<open>An uncaught exception of the JavaScript runtime.\<close>

datatype fault = TypeError

text \<open>
  A dist-tag is a version string, or a list of candidate version strings while a
  merge is under way.
\<close>

datatype tagval = TagStr string | TagList "string list"

text \<open>One entry of \<^verbatim>\<open>_uplinks\<close>: the sync record of an uplink.\<close>

record uprec =
  etag :: "string option"
  fetched :: "int option"

text \<open>One entry of \<^verbatim>\<open>_distfiles\<close>.\<close>

record distfile =
  url :: string

text \<open>
  A package document. \<open>'v\<close> is the type of version objects, \<open>'x\<close> the type of the
  values of every other property. \<^verbatim>\<open>name\<close>, \<^verbatim>\<open>versions\<close> and \<^verbatim>\<open>dist-tags\<close> are
  always there; the others may be missing (\<open>None\<close>). Properties the code never
  names are in \<open>extra\<close>. The fields are \<^verbatim>\<open>name\<close>, \<^verbatim>\<open>versions\<close>, \<^verbatim>\<open>dist-tags\<close>, \<^verbatim>\<open>readme\<close>,
  \<^verbatim>\<open>_rev\<close>, \<^verbatim>\<open>_uplinks\<close>, \<^verbatim>\<open>_distfiles\<close> and \<^verbatim>\<open>_attachments\<close>.
\<close>

record ('v, 'x) package =
  name :: string
  versions :: "(string \<times> 'v) list"
  dist_tags :: "(string \<times> tagval) list"
  readme :: "string option"
  rev :: "'x option"
  uplinks_rec :: "(string \<times> uprec) list option"
  distfiles :: "(string \<times> distfile) list option"
  attachments :: "(string \<times> 'x) list option"
  extra :: "(string \<times> 'x) list"

text \<open>The part of the configuration that \<^verbatim>\<open>storage.js\<close> reads.\<close>

record config =
  ignore_latest_tag :: bool
  proxy_access :: "string \<Rightarrow> string \<Rightarrow> bool"
  localList :: "string list"

text \<open>
  Modelled from the spec: the module \<^verbatim>\<open>./utils\<close> is not under src/. Its three
  functions that \<^verbatim>\<open>storage.js\<close> calls are parameters of the model.
  \<^item> \<open>tag_version\<close>: the tag-reconciliation rule of the spec (4.1, 4.2). It works on
    the dist-tags of the local document: given the remote's value for a tag and
    the tag's name it returns the new dist-tags and whether the tag was updated.
  \<^item> \<open>semver_sort\<close>: the semantic-version sorting utility.
  \<^item> \<open>validate_metadata\<close>: the structural check of a remote document against the
    requested name; \<open>Some e\<close> is the exception it throws.
\<close>

record ('v, 'x) utils =
  tag_version :: "(string \<times> tagval) list \<Rightarrow> tagval \<Rightarrow> string \<Rightarrow> config
                    \<Rightarrow> (string \<times> tagval) list \<times> bool"
  semver_sort :: "string list \<Rightarrow> string list"
  validate_metadata :: "('v, 'x) package \<Rightarrow> string \<Rightarrow> error option"

section \<open>The collaborators of \<^verbatim>\<open>Storage\<close>\<close>

text \<open>
  The options object handed through to the stores: the code names its \<^verbatim>\<open>etag\<close>
  only; \<open>opt_req\<close> stands for whatever else a caller puts in.
\<close>

record 'r options =
  opt_etag :: "string option"
  opt_req :: "'r option"

text \<open>The literal \<^verbatim>\<open>{}\<close>.\<close>

definition no_options :: "'r options" where
  "no_options = \<lparr>opt_etag = None, opt_req = None\<rparr>"

text \<open>
  Modelled from the spec: \<^verbatim>\<open>./up-storage\<close> and \<^verbatim>\<open>./local-storage\<close> are not under
  src/. An uplink and the local store are the answers they give (spec 6): what
  \<open>get_package\<close> hands to its callback, \<^verbatim>\<open>(err, doc, etag)\<close> for an uplink and
  \<^verbatim>\<open>(err, doc)\<close> for the local store, and so on.
\<close>

record ('v, 'x, 'r) uplink =
  upname :: string
  maxage :: int
  up_get_package :: "string \<Rightarrow> 'r options \<Rightarrow> error option \<times> ('v, 'x) package option \<times> string option"
  can_fetch_url :: "string \<Rightarrow> bool"

record ('v, 'x, 'r) local_store =
  local_get_package :: "string \<Rightarrow> 'r options \<Rightarrow> error option \<times> ('v, 'x) package option"
  local_update_versions :: "string \<Rightarrow> ('v, 'x) package \<Rightarrow> error option \<times> ('v, 'x) package option"
  local_add_package :: "string \<Rightarrow> ('v, 'x) package \<Rightarrow> error option"

text \<open>
  \<^verbatim>\<open>Date.now()\<close>, read once when the freshness of an uplink is tested and once in
  the callback of its \<open>get_package\<close>; both readings are given per uplink name.
\<close>

record clock =
  at_check :: "string \<Rightarrow> int"
  at_reply :: "string \<Rightarrow> int"

text \<open>The object \<^verbatim>\<open>self\<close>, with the modules and the clock it works with.\<close>

record ('v, 'x, 'r) storage =
  self_config :: config
  self_uplinks :: "('v, 'x, 'r) uplink list"
  self_local :: "('v, 'x, 'r) local_store"
  self_utils :: "('v, 'x) utils"
  self_clock :: clock

text \<open>
  The calls a function makes to its collaborators, in the order it makes them;
  of the logger, the warnings of \<open>get_local\<close> only (with the package they name).
\<close>

datatype ('v, 'x, 'r) effect =
    Uplink_get_package string string "'r options"
  | Local_get_package string
  | Local_update_versions string "('v, 'x) package"
  | Local_add_package string "('v, 'x) package"
  | Logger_warn string

text \<open>The arguments a callback \<^verbatim>\<open>(err, result, uplink_errors)\<close> is called with.\<close>

record ('v, 'x) cb_args =
  cb_err :: "error option"
  cb_result :: "('v, 'x) package option"
  cb_uplink_errors :: "error option list option"

section \<open>\<^verbatim>\<open>Storage._merge_versions\<close>\<close>

text \<open>
  \<^verbatim>\<open>for (var i in up.versions) if (local.versions[i] == null) local.versions[i] = up.versions[i]\<close>
  The value of a version key is an object, so \<^verbatim>\<open>== null\<close> holds exactly where the key
  is missing.
\<close>

definition copy_version :: "(string \<times> 'v) list \<Rightarrow> string \<Rightarrow> (string \<times> 'v) list
    \<Rightarrow> (string \<times> 'v) list" where
  "copy_version upv i lv =
     (if map_of lv i = None
      then (case map_of upv i of Some v \<Rightarrow> AList.update i v lv | None \<Rightarrow> lv)
      else lv)"

definition copy_versions :: "(string \<times> 'v) list \<Rightarrow> (string \<times> 'v) list
    \<Rightarrow> (string \<times> 'v) list" where
  "copy_versions upv lv = fold (copy_version upv) (map fst upv) lv"

text \<open>
  One round of the dist-tags loop: the state is the local dist-tags and the local
  readme.
\<close>

definition refresh_tag :: "('v, 'x) utils \<Rightarrow> config \<Rightarrow> ('v, 'x) package \<Rightarrow> string
    \<Rightarrow> (string \<times> tagval) list \<times> string option \<Rightarrow> (string \<times> tagval) list \<times> string option" where
  "refresh_tag U cfg up i st =
     (case map_of (dist_tags up) i of
        None \<Rightarrow> st
      | Some v \<Rightarrow>
          (let (tags', added) = tag_version U (fst st) v i cfg
           in if i = ''latest'' \<and> added then (tags', readme up) else (tags', snd st)))"

definition merge_versions :: "('v, 'x) utils \<Rightarrow> ('v, 'x) package \<Rightarrow> ('v, 'x) package \<Rightarrow> config
    \<Rightarrow> ('v, 'x) package" where
  "merge_versions U local up cfg =
     (let vs = copy_versions (versions up) (versions local);
          (tags, rd) = fold (refresh_tag U cfg up) (map fst (dist_tags up))
                         (dist_tags local, readme local)
      in local\<lparr>versions := vs, dist_tags := tags, readme := rd\<rparr>)"

section \<open>\<^verbatim>\<open>Storage.prototype._sync_package_with_uplinks\<close>\<close>

definition skeleton :: "string \<Rightarrow> ('v, 'x) package" where
  "skeleton nm = \<lparr>name = nm, versions = [], dist_tags = [], readme = None, rev = None,
     uplinks_rec = Some [], distfiles = None, attachments = None, extra = []\<rparr>"

text \<open>\<^verbatim>\<open>fetched && fetched > (Date.now() - up.maxage)\<close>\<close>

definition fresh :: "uprec \<Rightarrow> int \<Rightarrow> int \<Rightarrow> bool" where
  "fresh r now age = (case fetched r of None \<Rightarrow> False | Some f \<Rightarrow> f \<noteq> 0 \<and> f > now - age)"

text \<open>
  The first half of the iterator of \<^verbatim>\<open>async.map\<close>: either \<^verbatim>\<open>return cb()\<close> at once,
  or \<open>up.get_package\<close> is called with \<^verbatim>\<open>_options\<close>. Reading
  \<^verbatim>\<open>pkginfo._uplinks[up.upname]\<close> throws when \<^verbatim>\<open>_uplinks\<close> is missing.
\<close>

datatype 'r launch = Skipped | Asked "'r options"

definition ask_or_skip :: "(string \<times> uprec) list \<Rightarrow> int \<Rightarrow> ('v, 'x, 'r) uplink \<Rightarrow> 'r options
    \<Rightarrow> 'r launch" where
  "ask_or_skip recs now up options =
     (case map_of recs (upname up) of
        None \<Rightarrow> Asked options
      | Some r \<Rightarrow>
          if fresh r now (maxage up) then Skipped
          else Asked (options\<lparr>opt_etag := etag r\<rparr>))"

definition launch :: "('v, 'x) package \<Rightarrow> int \<Rightarrow> ('v, 'x, 'r) uplink \<Rightarrow> 'r options
    \<Rightarrow> fault + 'r launch" where
  "launch pkginfo now up options =
     (case uplinks_rec pkginfo of
        None \<Rightarrow> Inl TypeError
      | Some recs \<Rightarrow> Inr (ask_or_skip recs now up options))"

fun launch_all :: "('v, 'x) package \<Rightarrow> clock \<Rightarrow> ('v, 'x, 'r) uplink list \<Rightarrow> 'r options
    \<Rightarrow> fault + (('v, 'x, 'r) uplink \<times> 'r launch) list" where
  "launch_all pkginfo clk [] options = Inr []"
| "launch_all pkginfo clk (up # ups) options =
     (case launch pkginfo (at_check clk (upname up)) up options of
        Inl f \<Rightarrow> Inl f
      | Inr l \<Rightarrow>
          (case launch_all pkginfo clk ups options of
             Inl f \<Rightarrow> Inl f
           | Inr ls \<Rightarrow> Inr ((up, l) # ls)))"

fun asked_calls :: "string \<Rightarrow> (('v, 'x, 'r) uplink \<times> 'r launch) list \<Rightarrow> ('v, 'x, 'r) effect list" where
  "asked_calls nm [] = []"
| "asked_calls nm ((up, Skipped) # ls) = asked_calls nm ls"
| "asked_calls nm ((up, Asked opts) # ls) = Uplink_get_package (upname up) nm opts # asked_calls nm ls"

text \<open>\<^verbatim>\<open>pkginfo._uplinks[up.upname].fetched = Date.now()\<close>\<close>

definition touch_fetched :: "string \<Rightarrow> int \<Rightarrow> ('v, 'x) package \<Rightarrow> fault + ('v, 'x) package" where
  "touch_fetched u now pkginfo =
     (case uplinks_rec pkginfo of
        None \<Rightarrow> Inl TypeError
      | Some recs \<Rightarrow>
          (case map_of recs u of
             None \<Rightarrow> Inl TypeError
           | Some r \<Rightarrow> Inr (pkginfo\<lparr>uplinks_rec := Some (AList.update u (r\<lparr>fetched := Some now\<rparr>) recs)\<rparr>)))"

text \<open>\<^verbatim>\<open>pkginfo._uplinks[up.upname] = { etag: etag, fetched: Date.now() }\<close>\<close>

definition set_uprec :: "string \<Rightarrow> uprec \<Rightarrow> ('v, 'x) package \<Rightarrow> fault + ('v, 'x) package" where
  "set_uprec u r pkginfo =
     (case uplinks_rec pkginfo of
        None \<Rightarrow> Inl TypeError
      | Some recs \<Rightarrow> Inr (pkginfo\<lparr>uplinks_rec := Some (AList.update u r recs)\<rparr>))"

definition is_304 :: "error option \<Rightarrow> bool" where
  "is_304 err = (case err of None \<Rightarrow> False | Some e \<Rightarrow> status e = Some 304)"

text \<open>
  The callback of \<open>up.get_package\<close>. The state is \<^verbatim>\<open>pkginfo\<close> and \<^verbatim>\<open>exists\<close>; the
  second result is what the uplink leaves in its slot of \<^verbatim>\<open>uplink_errors\<close>:
  \<open>Some e\<close> for \<^verbatim>\<open>cb(null, [e])\<close>, \<open>None\<close> for \<^verbatim>\<open>cb()\<close>. Assigning to
  \<^verbatim>\<open>pkginfo._uplinks[up.upname].fetched\<close> throws when the uplink has no sync record.
  \<open>merge_versions\<close> is total on documents of this type, so the \<^verbatim>\<open>catch\<close> around it is
  no branch here; the calls of the logger are left out.
\<close>

definition on_reply :: "('v, 'x) utils \<Rightarrow> config \<Rightarrow> string \<Rightarrow> string \<Rightarrow> int
    \<Rightarrow> error option \<times> ('v, 'x) package option \<times> string option
    \<Rightarrow> ('v, 'x) package \<times> bool \<Rightarrow> fault + (('v, 'x) package \<times> bool) \<times> error option" where
  "on_reply U cfg nm u now rep st =
     (case rep of (err, up_res, etg) \<Rightarrow>
        (case (if is_304 err then touch_fetched u now (fst st) else Inr (fst st)) of
           Inl f \<Rightarrow> Inl f
         | Inr pkginfo \<Rightarrow>
             (case err of
                Some e \<Rightarrow> Inr ((pkginfo, snd st), Some e)
              | None \<Rightarrow>
                  (case up_res of
                     None \<Rightarrow> Inr ((pkginfo, snd st), Some (http_error 500 ''no data''))
                   | Some res \<Rightarrow>
                       (case validate_metadata U res nm of
                          Some e \<Rightarrow> Inr ((pkginfo, snd st), Some e)
                        | None \<Rightarrow>
                            (case set_uprec u \<lparr>etag = etg, fetched = Some now\<rparr> pkginfo of
                               Inl f \<Rightarrow> Inl f
                             | Inr pkginfo' \<Rightarrow>
                                 Inr ((merge_versions U pkginfo' res cfg, True), None)))))))"

text \<open>
  The callbacks, taken in the order of the uplinks. \<^verbatim>\<open>async.map\<close> starts every
  iterator before the first callback runs, so every freshness test reads the
  document the pass began with (\<open>launch_all\<close>), and the callbacks then change it one
  after the other.
\<close>

fun collect :: "('v, 'x) utils \<Rightarrow> config \<Rightarrow> string \<Rightarrow> clock
    \<Rightarrow> (('v, 'x, 'r) uplink \<times> 'r launch) list \<Rightarrow> ('v, 'x) package \<times> bool
    \<Rightarrow> fault + (('v, 'x) package \<times> bool) \<times> error option list" where
  "collect U cfg nm clk [] st = Inr (st, [])"
| "collect U cfg nm clk ((up, Skipped) # ls) st =
     (case collect U cfg nm clk ls st of
        Inl f \<Rightarrow> Inl f
      | Inr (st', errs) \<Rightarrow> Inr (st', None # errs))"
| "collect U cfg nm clk ((up, Asked opts) # ls) st =
     (case on_reply U cfg nm (upname up) (at_reply clk (upname up)) (up_get_package up nm opts) st of
        Inl f \<Rightarrow> Inl f
      | Inr (st1, slot) \<Rightarrow>
          (case collect U cfg nm clk ls st1 of
             Inl f \<Rightarrow> Inl f
           | Inr (st', errs) \<Rightarrow> Inr (st', slot # errs)))"

definition permitted :: "('v, 'x, 'r) storage \<Rightarrow> string \<Rightarrow> ('v, 'x, 'r) uplink list" where
  "permitted self nm = filter (\<lambda>up. proxy_access (self_config self) nm (upname up)) (self_uplinks self)"

text \<open>
  The final callback of \<^verbatim>\<open>async.map\<close>: the calls it makes and what it hands to the
  callback of the caller.
\<close>

definition conclude :: "('v, 'x, 'r) storage \<Rightarrow> string \<Rightarrow> (('v, 'x) package \<times> bool) \<times> error option list
    \<Rightarrow> ('v, 'x, 'r) effect list \<times> ('v, 'x) cb_args" where
  "conclude self nm r =
     (case r of ((pkginfo, exists), uplink_errors) \<Rightarrow>
        if \<not> exists
        then ([], \<lparr>cb_err = Some (http_error 404 ''no such package available''),
                  cb_result = None, cb_uplink_errors = Some uplink_errors\<rparr>)
        else ([Local_update_versions nm pkginfo],
              (case local_update_versions (self_local self) nm pkginfo of
                 (Some e, p') \<Rightarrow> \<lparr>cb_err = Some e, cb_result = None, cb_uplink_errors = None\<rparr>
               | (None, p') \<Rightarrow> \<lparr>cb_err = None, cb_result = p', cb_uplink_errors = Some uplink_errors\<rparr>)))"

definition sync_package_with_uplinks :: "('v, 'x, 'r) storage \<Rightarrow> string \<Rightarrow> ('v, 'x) package option
    \<Rightarrow> 'r options \<Rightarrow> ('v, 'x, 'r) effect list \<times> (fault + ('v, 'x) cb_args)" where
  "sync_package_with_uplinks self nm pkginfo options =
     (let exists = (pkginfo \<noteq> None);
          pkginfo0 = (case pkginfo of None \<Rightarrow> skeleton nm | Some p \<Rightarrow> p)
      in case launch_all pkginfo0 (self_clock self) (permitted self nm) options of
           Inl f \<Rightarrow> ([], Inl f)
         | Inr ls \<Rightarrow>
             (case collect (self_utils self) (self_config self) nm (self_clock self) ls (pkginfo0, exists) of
                Inl f \<Rightarrow> (asked_calls nm ls, Inl f)
              | Inr r \<Rightarrow> (asked_calls nm ls @ fst (conclude self nm r), Inr (snd (conclude self nm r)))))"

section \<open>\<^verbatim>\<open>Storage.prototype.add_package\<close>\<close>








section \<open>\<^verbatim>\<open>Storage.prototype.get_package\<close>\<close>

text \<open>\<^verbatim>\<open>err && (!err.status || err.status >= 500)\<close>\<close>

definition internal_error :: "error option \<Rightarrow> bool" where
  "internal_error err =
     (case err of
        None \<Rightarrow> False
      | Some e \<Rightarrow> (case status e of None \<Rightarrow> True | Some s \<Rightarrow> s = 0 \<or> s \<ge> 500))"

definition whitelist :: "string list" where
  "whitelist = [''_rev'', ''name'', ''versions'', ''dist-tags'', ''readme'']"

text \<open>The keys that \<^verbatim>\<open>for (var i in result)\<close> goes through.\<close>

definition opt_key :: "string \<Rightarrow> 'a option \<Rightarrow> string list" where
  "opt_key k v = (case v of None \<Rightarrow> [] | Some x \<Rightarrow> [k])"

definition own_keys :: "('v, 'x) package \<Rightarrow> string list" where
  "own_keys p =
     [''name'', ''versions'', ''dist-tags'']
     @ opt_key ''readme'' (readme p)
     @ opt_key ''_rev'' (rev p)
     @ opt_key ''_uplinks'' (uplinks_rec p)
     @ opt_key ''_distfiles'' (distfiles p)
     @ opt_key ''_attachments'' (attachments p)
     @ map fst (extra p)"

text \<open>
  \<^verbatim>\<open>delete result[i]\<close>, for a key other than \<^verbatim>\<open>name\<close>, \<^verbatim>\<open>versions\<close> and \<^verbatim>\<open>dist-tags\<close>
  (which are on the whitelist).
\<close>

definition delete_key :: "string \<Rightarrow> ('v, 'x) package \<Rightarrow> ('v, 'x) package" where
  "delete_key i p =
     p\<lparr>readme := (if i = ''readme'' then None else readme p),
       rev := (if i = ''_rev'' then None else rev p),
       uplinks_rec := (if i = ''_uplinks'' then None else uplinks_rec p),
       distfiles := (if i = ''_distfiles'' then None else distfiles p),
       attachments := (if i = ''_attachments'' then None else attachments p),
       extra := AList.delete i (extra p)\<rparr>"

text \<open>\<^verbatim>\<open>if (whitelist.indexOf(i) === -1) delete result[i]\<close>\<close>

definition strip_key :: "string \<Rightarrow> ('v, 'x) package \<Rightarrow> ('v, 'x) package" where
  "strip_key i result = (if i \<in> set whitelist then result else delete_key i result)"

definition strip_keys :: "('v, 'x) package \<Rightarrow> ('v, 'x) package" where
  "strip_keys result = fold strip_key (own_keys result) result"

text \<open>\<^verbatim>\<open>!result['dist-tags'].latest\<close>: a missing tag and the empty string are falsy.\<close>

definition falsy :: "tagval option \<Rightarrow> bool" where
  "falsy t = (case t of None \<Rightarrow> True | Some (TagStr s) \<Rightarrow> s = [] | Some (TagList xs) \<Rightarrow> False)"

definition set_latest :: "('v, 'x) utils \<Rightarrow> config \<Rightarrow> ('v, 'x) package \<Rightarrow> ('v, 'x) package" where
  "set_latest U cfg result =
     (if ignore_latest_tag cfg \<or> falsy (map_of (dist_tags result) ''latest'')
      then result\<lparr>dist_tags :=
             AList.update ''latest'' (TagList (semver_sort U (map fst (versions result)))) (dist_tags result)\<rparr>
      else result)"

text \<open>
  One round of the loop over the dist-tags: a list gives way to its last element,
  and the key goes when there is none.
\<close>

definition collapse_tag :: "string \<Rightarrow> (string \<times> tagval) list \<Rightarrow> (string \<times> tagval) list" where
  "collapse_tag i tags =
     (case map_of tags i of
        Some (TagList xs) \<Rightarrow>
          (if xs = [] then AList.delete i tags else AList.update i (TagStr (last xs)) tags)
      | Some (TagStr s) \<Rightarrow> tags
      | None \<Rightarrow> tags)"

definition collapse_tags :: "(string \<times> tagval) list \<Rightarrow> (string \<times> tagval) list" where
  "collapse_tags tags = fold collapse_tag (map fst tags) tags"

text \<open>What the callback of \<^verbatim>\<open>_sync_package_with_uplinks\<close> does to \<^verbatim>\<open>result\<close>.\<close>

definition postprocess :: "('v, 'x) utils \<Rightarrow> config \<Rightarrow> ('v, 'x) package \<Rightarrow> ('v, 'x) package" where
  "postprocess U cfg result =
     (let r1 = strip_keys result;
          r2 = set_latest U cfg r1;
          r3 = r2\<lparr>dist_tags := collapse_tags (dist_tags r2)\<rparr>
      in r3\<lparr>attachments := Some []\<rparr>)"

definition get_package :: "('v, 'x, 'r) storage \<Rightarrow> string \<Rightarrow> 'r options
    \<Rightarrow> ('v, 'x, 'r) effect list \<times> (fault + ('v, 'x) cb_args)" where
  "get_package self nm options =
     (case local_get_package (self_local self) nm options of (err, data) \<Rightarrow>
        if internal_error err
        then ([Local_get_package nm], Inr \<lparr>cb_err = err, cb_result = None, cb_uplink_errors = None\<rparr>)
        else
          (case sync_package_with_uplinks self nm data options of
             (calls, Inl f) \<Rightarrow> (Local_get_package nm # calls, Inl f)
           | (calls, Inr r) \<Rightarrow>
               (case cb_err r of
                  Some e \<Rightarrow>
                    (Local_get_package nm # calls,
                     Inr \<lparr>cb_err = Some e, cb_result = None, cb_uplink_errors = None\<rparr>)
                | None \<Rightarrow>
                    (case cb_result r of
                       None \<Rightarrow> (Local_get_package nm # calls, Inl TypeError)
                     | Some result \<Rightarrow>
                         (Local_get_package nm # calls,
                          Inr \<lparr>cb_err = None,
                               cb_result = Some (postprocess (self_utils self) (self_config self) result),
                               cb_uplink_errors = cb_uplink_errors r\<rparr>)))))"

section \<open>\<^verbatim>\<open>Storage.prototype.get_tarball\<close>\<close>

text \<open>
  \<^verbatim>\<open>serve_file\<close> first picks the uplink that is to fetch the file: the loop over
  \<^verbatim>\<open>self.uplinks\<close> assigns \<^verbatim>\<open>uplink\<close> at every uplink whose \<open>can_fetch_url\<close> holds,
  and a \<^verbatim>\<open>Proxy\<close> for the url alone is made when \<^verbatim>\<open>uplink\<close> is still \<^verbatim>\<open>null\<close>.
\<close>

datatype 'u server = Configured 'u | Autogenerated string

definition choose_uplink :: "('v, 'x, 'r) uplink list \<Rightarrow> string \<Rightarrow> ('v, 'x, 'r) uplink option" where
  "choose_uplink ups file_url =
     fold (\<lambda>p uplink. if can_fetch_url p file_url then Some p else uplink) ups None"

definition serve_file_uplink :: "('v, 'x, 'r) storage \<Rightarrow> distfile \<Rightarrow> ('v, 'x, 'r) uplink server" where
  "serve_file_uplink self file =
     (case choose_uplink (self_uplinks self) (url file) of
        None \<Rightarrow> Autogenerated (url file)
      | Some uplink \<Rightarrow> Configured uplink)"

text \<open>
  What the stream handed out by \<open>get_tarball\<close> is made to do. The rest of
  \<^verbatim>\<open>serve_file\<close>, which pipes the uplink's stream into the output and into the
  local store, is the single step \<open>Serve\<close>.
\<close>

datatype ('v, 'x, 'r) action =
    Emit_error error
  | Emit_content_length nat
  | Pipe_local
  | Serve "('v, 'x, 'r) uplink server" distfile

text \<open>\<^verbatim>\<open>info._distfiles && info._distfiles[filename] != null\<close>\<close>

definition known_file :: "('v, 'x) package \<Rightarrow> string \<Rightarrow> distfile option" where
  "known_file info filename =
     (case distfiles info of None \<Rightarrow> None | Some files \<Rightarrow> map_of files filename)"

text \<open>The callback of \<^verbatim>\<open>_sync_package_with_uplinks\<close> in the error handler.\<close>

definition after_sync :: "('v, 'x, 'r) storage \<Rightarrow> string \<Rightarrow> error \<Rightarrow> fault + ('v, 'x) cb_args
    \<Rightarrow> fault + ('v, 'x, 'r) action" where
  "after_sync self filename err404 res =
     (case res of
        Inl f \<Rightarrow> Inl f
      | Inr r \<Rightarrow>
          (case cb_err r of
             Some e \<Rightarrow> Inr (Emit_error e)
           | None \<Rightarrow>
               (case cb_result r of
                  None \<Rightarrow> Inl TypeError
                | Some info \<Rightarrow>
                    (case known_file info filename of
                       None \<Rightarrow> Inr (Emit_error err404)
                     | Some file \<Rightarrow> Inr (Serve (serve_file_uplink self file) file)))))"

text \<open>
  What the error handler does once the local store reported 404 before the
  stream was open: \<open>local.get_package\<close>, then \<^verbatim>\<open>serve_file\<close> or the pass over the
  uplinks.
\<close>

definition remote_fallback :: "('v, 'x, 'r) storage \<Rightarrow> string \<Rightarrow> string \<Rightarrow> error
    \<Rightarrow> ('v, 'x, 'r) effect list \<times> (fault + ('v, 'x, 'r) action)" where
  "remote_fallback self nm filename err404 =
     (case local_get_package (self_local self) nm no_options of
        (None, None) \<Rightarrow> ([Local_get_package nm], Inl TypeError)
      | (None, Some info) \<Rightarrow>
          (case known_file info filename of
             Some file \<Rightarrow> ([Local_get_package nm], Inr (Serve (serve_file_uplink self file) file))
           | None \<Rightarrow>
               (case sync_package_with_uplinks self nm (Some info) no_options of
                  (calls, res) \<Rightarrow> (Local_get_package nm # calls, after_sync self filename err404 res)))
      | (Some e, info) \<Rightarrow>
          (case sync_package_with_uplinks self nm info no_options of
             (calls, res) \<Rightarrow> (Local_get_package nm # calls, after_sync self filename err404 res)))"

text \<open>
  The events of the local read stream \<^verbatim>\<open>rstream\<close> and the state its handlers share:
  \<^verbatim>\<open>is_open\<close>, whether \<^verbatim>\<open>rstream\<close> is still there (it is set to \<^verbatim>\<open>null\<close> when the
  fallback starts), and what the output stream has been made to do so far.
\<close>

datatype event = Error_event error | Content_length_event nat | Open_event

record ('v, 'x, 'r) tarball_state =
  is_open :: bool
  rstream_live :: bool
  emitted :: "('v, 'x, 'r) action list"

definition tarball_start :: "('v, 'x, 'r) tarball_state" where
  "tarball_start = \<lparr>is_open = False, rstream_live = True, emitted = []\<rparr>"

definition emit :: "('v, 'x, 'r) action \<Rightarrow> ('v, 'x, 'r) tarball_state \<Rightarrow> ('v, 'x, 'r) tarball_state" where
  "emit out s = s\<lparr>emitted := emitted s @ [out]\<rparr>"

text \<open>One event: the calls made to the collaborators, and the new state.\<close>

definition on_event :: "('v, 'x, 'r) storage \<Rightarrow> string \<Rightarrow> string \<Rightarrow> ('v, 'x, 'r) tarball_state \<Rightarrow> event
    \<Rightarrow> ('v, 'x, 'r) effect list \<times> (fault + ('v, 'x, 'r) tarball_state)" where
  "on_event self nm filename s ev =
     (case ev of
        Error_event err \<Rightarrow>
          if is_open s \<or> status err \<noteq> Some 404 then ([], Inr (emit (Emit_error err) s))
          else if \<not> rstream_live s then ([], Inl TypeError)
          else
            (case remote_fallback self nm filename err of
               (calls, Inl f) \<Rightarrow> (calls, Inl f)
             | (calls, Inr out) \<Rightarrow> (calls, Inr (emit out (s\<lparr>rstream_live := False\<rparr>))))
      | Content_length_event v \<Rightarrow> ([], Inr (emit (Emit_content_length v) s))
      | Open_event \<Rightarrow>
          if \<not> rstream_live s then ([], Inl TypeError)
          else ([], Inr (emit Pipe_local (s\<lparr>is_open := True\<rparr>))))"

fun on_events :: "('v, 'x, 'r) storage \<Rightarrow> string \<Rightarrow> string \<Rightarrow> ('v, 'x, 'r) tarball_state \<Rightarrow> event list
    \<Rightarrow> ('v, 'x, 'r) effect list \<times> (fault + ('v, 'x, 'r) tarball_state)" where
  "on_events self nm filename s [] = ([], Inr s)"
| "on_events self nm filename s (ev # evs) =
     (case on_event self nm filename s ev of
        (calls, Inl f) \<Rightarrow> (calls, Inl f)
      | (calls, Inr s') \<Rightarrow>
          (case on_events self nm filename s' evs of
             (calls', res) \<Rightarrow> (calls @ calls', res)))"

text \<open>
  \<open>get_tarball\<close> hands out the output stream at once; what the stream is made to do
  is given by the events of the local read stream that follow.
\<close>

definition get_tarball :: "('v, 'x, 'r) storage \<Rightarrow> string \<Rightarrow> string \<Rightarrow> event list
    \<Rightarrow> ('v, 'x, 'r) effect list \<times> (fault + ('v, 'x, 'r) tarball_state)" where
  "get_tarball self nm filename evs = on_events self nm filename tarball_start evs"

section \<open>\<^verbatim>\<open>Storage.prototype.get_local\<close>\<close>

text \<open>
  The value of \<^verbatim>\<open>latest\<close> in the callback: the last of the sorted list when the tag
  is a list (\<^verbatim>\<open>pop()\<close> gives \<^verbatim>\<open>undefined\<close> for the empty list), the tag itself
  otherwise. \<open>None\<close> is \<^verbatim>\<open>undefined\<close>.
\<close>

definition latest_of :: "('v, 'x) utils \<Rightarrow> ('v, 'x) package \<Rightarrow> string option" where
  "latest_of U info =
     (case map_of (dist_tags info) ''latest'' of
        Some (TagList xs) \<Rightarrow>
          (case semver_sort U xs of [] \<Rightarrow> None | v # vs \<Rightarrow> Some (last (v # vs)))
      | Some (TagStr s) \<Rightarrow> Some s
      | None \<Rightarrow> None)"

text \<open>\<^verbatim>\<open>info.versions[latest]\<close>: as a property name \<^verbatim>\<open>undefined\<close> is the string.\<close>

definition version_at :: "('v, 'x) package \<Rightarrow> string option \<Rightarrow> 'v option" where
  "version_at info latest =
     map_of (versions info) (case latest of None \<Rightarrow> ''undefined'' | Some s \<Rightarrow> s)"

text \<open>
  The first half of the callback of \<open>local.get_package\<close> for the name \<open>n\<close>: the new
  \<^verbatim>\<open>packages\<close> and the warning, if one is logged. Without an error and without a
  document, reading \<^verbatim>\<open>info['dist-tags']\<close> throws.
\<close>

definition on_local_package :: "('v, 'x, 'r) storage \<Rightarrow> string
    \<Rightarrow> error option \<times> ('v, 'x) package option \<Rightarrow> 'v list
    \<Rightarrow> fault + 'v list \<times> ('v, 'x, 'r) effect list" where
  "on_local_package self n reply packages =
     (case reply of
        (Some err, info) \<Rightarrow> Inr (packages, [])
      | (None, None) \<Rightarrow> Inl TypeError
      | (None, Some info) \<Rightarrow>
          (case version_at info (latest_of (self_utils self) info) of
             Some v \<Rightarrow> Inr (packages @ [v], [])
           | None \<Rightarrow> Inr (packages, [Logger_warn n])))"

text \<open>
  \<^verbatim>\<open>getPackage(i)\<close>, with \<^verbatim>\<open>locals[i]\<close> and the names after it for \<open>i\<close>: the test
  \<^verbatim>\<open>i >= locals.length - 1\<close> is whether names are left. The result is what the
  callback of \<open>get_local\<close> is called with.
\<close>

fun getPackage :: "('v, 'x, 'r) storage \<Rightarrow> string \<Rightarrow> string list \<Rightarrow> 'v list
    \<Rightarrow> ('v, 'x, 'r) effect list \<times> (fault + error option \<times> 'v list)" where
  "getPackage self n rest packages =
     (case on_local_package self n (local_get_package (self_local self) n no_options) packages of
        Inl f \<Rightarrow> ([Local_get_package n], Inl f)
      | Inr (packages', warned) \<Rightarrow>
          (case rest of
             [] \<Rightarrow> (Local_get_package n # warned, Inr (None, packages'))
           | m # ms \<Rightarrow>
               (case getPackage self m ms packages' of
                  (calls, res) \<Rightarrow> (Local_get_package n # warned @ calls, res))))"

declare getPackage.simps [simp del]

definition get_local :: "('v, 'x, 'r) storage
    \<Rightarrow> ('v, 'x, 'r) effect list \<times> (fault + error option \<times> 'v list)" where
  "get_local self =
     (case localList (self_config self) of
        [] \<Rightarrow> ([], Inr (None, []))
      | n # rest \<Rightarrow> getPackage self n rest [])"

section \<open>Notions of the statements\<close>

text \<open>
  What the idempotence of the merge needs of \<open>tag_version\<close>, which is not under
  src/: reconciling the same tag with the same remote value a second time changes
  nothing and reports no update, and reconciling another tag in between does not
  disturb that.
\<close>

definition settled :: "('v, 'x) utils \<Rightarrow> config \<Rightarrow> (string \<times> tagval) list \<Rightarrow> tagval \<Rightarrow> string \<Rightarrow> bool" where
  "settled U cfg tags v t = (tag_version U tags v t cfg = (tags, False))"

definition tag_version_settles :: "('v, 'x) utils \<Rightarrow> config \<Rightarrow> bool" where
  "tag_version_settles U cfg =
     ((\<forall>tags v t. settled U cfg (fst (tag_version U tags v t cfg)) v t) \<and>
      (\<forall>tags v t v' t'. t \<noteq> t' \<longrightarrow> settled U cfg tags v t
          \<longrightarrow> settled U cfg (fst (tag_version U tags v' t' cfg)) v t))"

text \<open>The verdict of a pass: everything but the list of uplink errors.\<close>

definition verdict :: "fault + ('v, 'x) cb_args \<Rightarrow> fault + error option \<times> ('v, 'x) package option" where
  "verdict r = (case r of Inl f \<Rightarrow> Inl f | Inr c \<Rightarrow> Inr (cb_err c, cb_result c))"




text \<open>What becomes of one dist-tag.\<close>

definition collapsed :: "tagval option \<Rightarrow> tagval option" where
  "collapsed t =
     (case t of
        Some (TagList xs) \<Rightarrow> if xs = [] then None else Some (TagStr (last xs))
      | Some (TagStr s) \<Rightarrow> Some (TagStr s)
      | None \<Rightarrow> None)"

text \<open>What an event of the local stream becomes on the output stream once it is open.\<close>

definition forward :: "event \<Rightarrow> ('v, 'x, 'r) action" where
  "forward ev =
     (case ev of
        Error_event err \<Rightarrow> Emit_error err
      | Content_length_event v \<Rightarrow> Emit_content_length v
      | Open_event \<Rightarrow> Pipe_local)"

text \<open>What one name of the local list adds to the result, and to the warnings.\<close>

definition latest_version :: "('v, 'x, 'r) storage \<Rightarrow> string \<Rightarrow> 'v list" where
  "latest_version self n =
     (case local_get_package (self_local self) n no_options of
        (None, Some info) \<Rightarrow>
          (case version_at info (latest_of (self_utils self) info) of Some v \<Rightarrow> [v] | None \<Rightarrow> [])
      | (None, None) \<Rightarrow> []
      | (Some err, info) \<Rightarrow> [])"

definition warning :: "('v, 'x, 'r) storage \<Rightarrow> string \<Rightarrow> ('v, 'x, 'r) effect list" where
  "warning self n =
     (case local_get_package (self_local self) n no_options of
        (None, Some info) \<Rightarrow>
          (case version_at info (latest_of (self_utils self) info) of
             Some v \<Rightarrow> [] | None \<Rightarrow> [Logger_warn n])
      | (None, None) \<Rightarrow> []
      | (Some err, info) \<Rightarrow> [])"

definition is_warning :: "('v, 'x, 'r) effect \<Rightarrow> bool" where
  "is_warning c = (case c of Logger_warn n \<Rightarrow> True | _ \<Rightarrow> False)"

section \<open>Registries to try the statements on\<close>

text \<open>
  Modelled from the spec: a \<open>tag_version\<close> that collects the candidates of a tag
  into an ordered list (spec 4.2): the remote's version is appended to the tag's
  list unless it is a candidate already, and the tag counts as updated when the
  version was appended. With \<open>ignore_latest_tag\<close> the tag \<^verbatim>\<open>latest\<close> is left alone.
\<close>

definition tag_candidates :: "tagval option \<Rightarrow> string list" where
  "tag_candidates e = (case e of None \<Rightarrow> [] | Some (TagStr s) \<Rightarrow> [s] | Some (TagList xs) \<Rightarrow> xs)"

definition latest_ignored :: "string \<Rightarrow> config \<Rightarrow> bool" where
  "latest_ignored t cfg = (t = ''latest'' \<and> ignore_latest_tag cfg)"

definition tag_version_collect :: "(string \<times> tagval) list \<Rightarrow> tagval \<Rightarrow> string \<Rightarrow> config
    \<Rightarrow> (string \<times> tagval) list \<times> bool" where
  "tag_version_collect tags v t cfg =
     (if latest_ignored t cfg then (tags, False)
      else (case v of
              TagList _ \<Rightarrow> (tags, False)
            | TagStr s \<Rightarrow>
                if s \<in> set (tag_candidates (map_of tags t)) then (tags, False)
                else (AList.update t (TagList (tag_candidates (map_of tags t) @ [s])) tags, True)))"

text \<open>
  The second scenario of the spec's testable properties: the local document has
  version 2.0.0, the remote document has another body for 2.0.0 and has 2.1.0.
  Version objects are numbered; \<open>semver_sort\<close> leaves its list as it is and
  \<open>validate_metadata\<close> compares the names.
\<close>

definition example_utils :: "(nat, nat) utils" where
  "example_utils = \<lparr>tag_version = tag_version_collect, semver_sort = (\<lambda>xs. xs),
     validate_metadata = (\<lambda>p n. if name p = n then None else Some (plain_error ''name mismatch''))\<rparr>"

definition example_config :: config where
  "example_config = \<lparr>ignore_latest_tag = False, proxy_access = (\<lambda>n u. True), localList = [''pkg'']\<rparr>"

definition example_local :: "(nat, nat) package" where
  "example_local = \<lparr>name = ''pkg'', versions = [(''2.0.0'', 1)], dist_tags = [(''latest'', TagStr ''2.0.0'')],
     readme = Some ''local readme'', rev = None, uplinks_rec = Some [], distfiles = None,
     attachments = None, extra = []\<rparr>"

definition example_remote :: "(nat, nat) package" where
  "example_remote = \<lparr>name = ''pkg'', versions = [(''2.0.0'', 7), (''2.1.0'', 8)],
     dist_tags = [(''latest'', TagStr ''2.1.0'')],
     readme = Some ''remote readme'', rev = None, uplinks_rec = None, distfiles = None,
     attachments = None, extra = []\<rparr>"

text \<open>
  A registry with the one uplink \<^verbatim>\<open>npmjs\<close>, which answers with the remote document,
  and a local store that has no package and hands back from \<^verbatim>\<open>update_versions\<close> the
  document it is given. \<open>example_seed\<close> is the local document with a sync record
  of that uplink, one second old.
\<close>

definition example_seed :: "(nat, nat) package" where
  "example_seed = example_local\<lparr>uplinks_rec :=
     Some [(''npmjs'', \<lparr>etag = Some ''e1'', fetched = Some 1699999999000\<rparr>)]\<rparr>"

definition example_uplink :: "(nat, nat, nat) uplink" where
  "example_uplink = \<lparr>upname = ''npmjs'', maxage = 120000,
     up_get_package = (\<lambda>nm opts. (None, Some example_remote, Some ''e2'')),
     can_fetch_url = (\<lambda>u. True)\<rparr>"

definition example_store :: "(nat, nat, nat) local_store" where
  "example_store = \<lparr>local_get_package = (\<lambda>nm opts. (Some (http_error 404 ''no such package''), None)),
     local_update_versions = (\<lambda>nm p. (None, Some p)),
     local_add_package = (\<lambda>nm p. None)\<rparr>"

definition example_clock :: clock where
  "example_clock = \<lparr>at_check = (\<lambda>u. 1700000000000), at_reply = (\<lambda>u. 1700000000250)\<rparr>"

definition example_storage :: "(nat, nat, nat) storage" where
  "example_storage = \<lparr>self_config = example_config, self_uplinks = [example_uplink],
     self_local = example_store, self_utils = example_utils, self_clock = example_clock\<rparr>"

text \<open>
  A sync record fetched at time 0 and an uplink whose \<open>maxage\<close> is longer than the
  time since 1970: \<open>now - fetched < maxage\<close> holds and the uplink is asked.
\<close>

definition stale_seed :: "(nat, nat) package" where
  "stale_seed = example_local\<lparr>uplinks_rec := Some [(''npmjs'', \<lparr>etag = Some ''e1'', fetched = Some 0\<rparr>)]\<rparr>"

definition patient_uplink :: "(nat, nat, nat) uplink" where
  "patient_uplink = example_uplink\<lparr>maxage := 2000000000000\<rparr>"

definition patient_storage :: "(nat, nat, nat) storage" where
  "patient_storage = example_storage\<lparr>self_uplinks := [patient_uplink]\<rparr>"







text \<open>Local stores whose \<open>get_package\<close> fails with status 403, and with no status.\<close>

definition forbidden_storage :: "(nat, nat, nat) storage" where
  "forbidden_storage = example_storage\<lparr>self_local :=
     example_store\<lparr>local_get_package := (\<lambda>nm opts. (Some (http_error 403 ''forbidden''), None))\<rparr>\<rparr>"

definition failing_storage :: "(nat, nat, nat) storage" where
  "failing_storage = example_storage\<lparr>self_local :=
     example_store\<lparr>local_get_package := (\<lambda>nm opts. (Some (plain_error ''EIO''), None))\<rparr>\<rparr>"

text \<open>What \<open>get_package\<close> hands out in the registry with the one uplink.\<close>

definition example_doc :: "(nat, nat) package" where
  "example_doc = \<lparr>name = ''pkg'', versions = [(''2.0.0'', 7), (''2.1.0'', 8)],
     dist_tags = [(''latest'', TagStr ''2.1.0'')], readme = Some ''remote readme'', rev = None,
     uplinks_rec = None, distfiles = None, attachments = Some [], extra = []\<rparr>"

text \<open>A second uplink, which like the first can fetch every url.\<close>

definition mirror_uplink :: "(nat, nat, nat) uplink" where
  "mirror_uplink = example_uplink\<lparr>upname := ''mirror''\<rparr>"

definition two_uplinks :: "(nat, nat, nat) storage" where
  "two_uplinks = example_storage\<lparr>self_uplinks := [example_uplink, mirror_uplink]\<rparr>"

text \<open>The state of \<open>get_tarball\<close> after the local stream has opened.\<close>

definition opened :: "(nat, nat, nat) tarball_state" where
  "opened = \<lparr>is_open = True, rstream_live = True, emitted = [Pipe_local]\<rparr>"

text \<open>
  A local list of three: a package that is read and has its latest version, one
  whose read fails, and one that is read and names a latest version it has not.
\<close>

definition listing_store :: "(nat, nat, nat) local_store" where
  "listing_store = example_store\<lparr>local_get_package := (\<lambda>n opts.
     if n = ''pkg'' then (None, Some example_local)
     else if n = ''gone'' then (Some (plain_error ''EIO''), None)
     else (None, Some (example_local\<lparr>dist_tags := [(''latest'', TagStr ''9.9.9'')]\<rparr>)))\<rparr>"

definition listing_storage :: "(nat, nat, nat) storage" where
  "listing_storage = example_storage\<lparr>self_local := listing_store,
     self_config := example_config\<lparr>localList := [''pkg'', ''gone'', ''odd'']\<rparr>\<rparr>"

section \<open>Properties of the merge\<close>

lemma copy_version_lookup:
  "map_of (copy_version upv i lv) k =
     (case map_of lv k of Some v \<Rightarrow> Some v
      | None \<Rightarrow> if k = i then map_of upv i else None)"
  by (auto simp: copy_version_def update_conv' split: option.splits)

lemma fold_copy_version_lookup:
  "map_of (fold (copy_version upv) ks lv) k =
     (case map_of lv k of Some v \<Rightarrow> Some v
      | None \<Rightarrow> if k \<in> set ks then map_of upv k else None)"
proof (induction ks arbitrary: lv)
  case Nil
  show ?case by (simp split: option.splits)
next
  case (Cons i ks)
  show ?case
    by (simp add: Cons.IH copy_version_lookup split: option.splits)
qed

lemma copy_versions_lookup:
  "map_of (copy_versions upv lv) k =
     (case map_of lv k of Some v \<Rightarrow> Some v | None \<Rightarrow> map_of upv k)"
proof -
  have "k \<notin> fst ` set upv \<Longrightarrow> map_of upv k = None"
    by (simp add: map_of_eq_None_iff)
  then show ?thesis
    by (auto simp: copy_versions_def fold_copy_version_lookup split: option.splits)
qed

lemma versions_merge_versions:
  "versions (merge_versions U local up cfg) = copy_versions (versions up) (versions local)"
  by (simp add: merge_versions_def Let_def split: prod.splits)

text \<open>
  C2. A merge never replaces the value under a version key of the local document:
  after the merge every key of \<open>local.versions\<close> holds the value it held before,
  whatever the remote document has under that key, and a key that was absent
  holds what the remote document has under it (nothing if the remote has none).
\<close>

theorem merge_versions_keeps_local:
  "map_of (versions (merge_versions U local up cfg)) k =
     (case map_of (versions local) k of
        Some v \<Rightarrow> Some v
      | None \<Rightarrow> map_of (versions up) k)"
  by (simp add: versions_merge_versions copy_versions_lookup)

subsection \<open>Merging twice\<close>

lemma fold_copy_version_present:
  "\<forall>k \<in> set ks. map_of lv k \<noteq> None \<Longrightarrow> fold (copy_version upv) ks lv = lv"
  by (induction ks) (auto simp: copy_version_def)

lemma copy_versions_twice:
  "copy_versions upv (copy_versions upv lv) = copy_versions upv lv"
proof -
  have "map_of (copy_versions upv lv) k \<noteq> None" if "k \<in> set (map fst upv)" for k
  proof -
    from that have "map_of upv k \<noteq> None"
      by (simp add: map_of_eq_None_iff)
    then show ?thesis
      by (simp add: copy_versions_lookup split: option.splits)
  qed
  then have "fold (copy_version upv) (map fst upv) (copy_versions upv lv) = copy_versions upv lv"
    by (intro fold_copy_version_present) blast
  then show ?thesis
    by (simp add: copy_versions_def)
qed

lemma tag_version_settlesD1:
  "tag_version_settles U cfg \<Longrightarrow> settled U cfg (fst (tag_version U tags v t cfg)) v t"
  by (simp add: tag_version_settles_def)

lemma tag_version_settlesD2:
  "tag_version_settles U cfg \<Longrightarrow> t \<noteq> t' \<Longrightarrow> settled U cfg tags v t
     \<Longrightarrow> settled U cfg (fst (tag_version U tags v' t' cfg)) v t"
  by (simp add: tag_version_settles_def)

lemma fst_refresh_tag:
  "map_of (dist_tags up) i = Some w
     \<Longrightarrow> fst (refresh_tag U cfg up i st) = fst (tag_version U (fst st) w i cfg)"
  by (simp add: refresh_tag_def case_prod_beta)

lemma settled_refresh_tag:
  assumes "tag_version_settles U cfg" and "settled U cfg tags v t" and "i \<noteq> t"
  shows "settled U cfg (fst (refresh_tag U cfg up i (tags, rd))) v t"
proof (cases "map_of (dist_tags up) i")
  case None
  with assms(2) show ?thesis by (simp add: refresh_tag_def)
next
  case (Some w)
  from assms have "settled U cfg (fst (tag_version U tags w i cfg)) v t"
    by (simp add: tag_version_settlesD2)
  with Some show ?thesis
    by (simp add: fst_refresh_tag)
qed

lemma settled_fold_refresh_tag:
  assumes "tag_version_settles U cfg"
  shows "settled U cfg tags v t \<Longrightarrow> t \<notin> set ks
     \<Longrightarrow> settled U cfg (fst (fold (refresh_tag U cfg up) ks (tags, rd))) v t"
proof (induction ks arbitrary: tags rd)
  case Nil
  then show ?case by simp
next
  case (Cons i ks)
  obtain tags1 rd1 where st: "refresh_tag U cfg up i (tags, rd) = (tags1, rd1)"
    by (cases "refresh_tag U cfg up i (tags, rd)")
  from Cons.prems have "settled U cfg (fst (refresh_tag U cfg up i (tags, rd))) v t"
    by (intro settled_refresh_tag [OF assms]) auto
  with st have "settled U cfg tags1 v t" by simp
  with Cons.IH [of tags1 rd1] Cons.prems(2) st show ?case by simp
qed

lemma fold_refresh_tag_settles:
  assumes "tag_version_settles U cfg"
  shows "distinct ks \<Longrightarrow> i \<in> set ks \<Longrightarrow> map_of (dist_tags up) i = Some v
     \<Longrightarrow> settled U cfg (fst (fold (refresh_tag U cfg up) ks (tags, rd))) v i"
proof (induction ks arbitrary: tags rd)
  case Nil
  then show ?case by simp
next
  case (Cons j ks)
  obtain tags1 rd1 where st: "refresh_tag U cfg up j (tags, rd) = (tags1, rd1)"
    by (cases "refresh_tag U cfg up j (tags, rd)")
  show ?case
  proof (cases "i = j")
    case True
    with Cons.prems(3) st have "tags1 = fst (tag_version U tags v i cfg)"
      using fst_refresh_tag [of up j v U cfg "(tags, rd)"] by simp
    moreover from assms have "settled U cfg (fst (tag_version U tags v i cfg)) v i"
      by (rule tag_version_settlesD1)
    ultimately have "settled U cfg tags1 v i" by simp
    moreover from Cons.prems(1) True have "i \<notin> set ks" by simp
    ultimately have "settled U cfg (fst (fold (refresh_tag U cfg up) ks (tags1, rd1))) v i"
      by (rule settled_fold_refresh_tag [OF assms])
    with st show ?thesis by simp
  next
    case False
    with Cons.prems have "distinct ks" and "i \<in> set ks" by auto
    from Cons.IH [OF this Cons.prems(3), of tags1 rd1] st show ?thesis by simp
  qed
qed

lemma fold_refresh_tag_settled:
  "\<forall>i \<in> set ks. \<forall>v. map_of (dist_tags up) i = Some v \<longrightarrow> settled U cfg tags v i
     \<Longrightarrow> fold (refresh_tag U cfg up) ks (tags, rd) = (tags, rd)"
proof (induction ks)
  case Nil
  show ?case by simp
next
  case (Cons i ks)
  have "refresh_tag U cfg up i (tags, rd) = (tags, rd)"
  proof (cases "map_of (dist_tags up) i")
    case None
    then show ?thesis by (simp add: refresh_tag_def)
  next
    case (Some v)
    with Cons.prems have "tag_version U tags v i cfg = (tags, False)"
      by (simp add: settled_def)
    with Some show ?thesis by (simp add: refresh_tag_def)
  qed
  with Cons show ?case by simp
qed

lemma fold_refresh_tag_twice:
  assumes "tag_version_settles U cfg" and "distinct ks"
    and "fold (refresh_tag U cfg up) ks st = (tags, rd)"
  shows "fold (refresh_tag U cfg up) ks (tags, rd) = (tags, rd)"
proof (rule fold_refresh_tag_settled, intro ballI allI impI)
  fix i v
  assume "i \<in> set ks" and "map_of (dist_tags up) i = Some v"
  with assms(2) have "settled U cfg (fst (fold (refresh_tag U cfg up) ks (fst st, snd st))) v i"
    by (intro fold_refresh_tag_settles [OF assms(1)])
  with assms(3) show "settled U cfg tags v i" by simp
qed

lemma tag_version_collect_again:
  "tag_version_collect (fst (tag_version_collect tags v t cfg)) v t cfg
     = (fst (tag_version_collect tags v t cfg), False)"
proof (cases "latest_ignored t cfg")
  case True
  then show ?thesis by (simp add: tag_version_collect_def)
next
  case outer: False
  show ?thesis
  proof (cases v)
    case (TagList xs)
    with outer show ?thesis by (simp add: tag_version_collect_def)
  next
    case (TagStr s)
    show ?thesis
    proof (cases "s \<in> set (tag_candidates (map_of tags t))")
      case True
      with outer TagStr show ?thesis by (simp add: tag_version_collect_def)
    next
      case False
      let ?tags = "AList.update t (TagList (tag_candidates (map_of tags t) @ [s])) tags"
      from outer TagStr False have "tag_version_collect tags v t cfg = (?tags, True)"
        by (simp add: tag_version_collect_def)
      moreover have "s \<in> set (tag_candidates (map_of ?tags t))"
        by (simp add: update_conv' tag_candidates_def)
      then have "tag_version_collect ?tags v t cfg = (?tags, False)"
        using outer TagStr by (simp add: tag_version_collect_def)
      ultimately show ?thesis by simp
    qed
  qed
qed

lemma tag_version_collect_other:
  assumes "t \<noteq> t'" and "tag_version_collect tags v t cfg = (tags, False)"
  shows "tag_version_collect (fst (tag_version_collect tags v' t' cfg)) v t cfg
     = (fst (tag_version_collect tags v' t' cfg), False)"
proof -
  let ?tags = "fst (tag_version_collect tags v' t' cfg)"
  have "?tags = tags \<or> (\<exists>w. ?tags = AList.update t' w tags)"
    by (auto simp: tag_version_collect_def split: tagval.splits)
  with assms(1) have same: "map_of ?tags t = map_of tags t"
    by (auto simp: update_conv')
  show ?thesis
  proof (cases "latest_ignored t cfg")
    case True
    then show ?thesis by (simp add: tag_version_collect_def)
  next
    case outer: False
    show ?thesis
    proof (cases v)
      case (TagList xs)
      with outer show ?thesis by (simp add: tag_version_collect_def)
    next
      case (TagStr s)
      have "s \<in> set (tag_candidates (map_of tags t))"
      proof (rule ccontr)
        assume "s \<notin> set (tag_candidates (map_of tags t))"
        with outer TagStr have "snd (tag_version_collect tags v t cfg)"
          by (simp add: tag_version_collect_def)
        with assms(2) show False by simp
      qed
      with same have "s \<in> set (tag_candidates (map_of ?tags t))" by simp
      with outer TagStr show ?thesis
        by (simp only: tag_version_collect_def tagval.case if_True if_False)
    qed
  qed
qed

lemma tag_version_collect_settles:
  "tag_version U = tag_version_collect \<Longrightarrow> tag_version_settles U cfg"
  unfolding tag_version_settles_def settled_def
  by (simp add: tag_version_collect_again tag_version_collect_other)

text \<open>
  C8. Merging the same remote document twice leaves the local document as one
  merge leaves it (versions, dist-tags and readme, and every other property),
  for a \<open>tag_version\<close> whose second application to the same tag and value is
  without effect, and a remote document whose dist-tags have distinct keys, as
  the keys of an object are.
\<close>

theorem merge_versions_idempotent:
  assumes "tag_version_settles U cfg" and "distinct (map fst (dist_tags up))"
  shows "merge_versions U (merge_versions U local up cfg) up cfg = merge_versions U local up cfg"
proof -
  obtain tags rd where f: "fold (refresh_tag U cfg up) (map fst (dist_tags up))
      (dist_tags local, readme local) = (tags, rd)"
    by (cases "fold (refresh_tag U cfg up) (map fst (dist_tags up)) (dist_tags local, readme local)")
  let ?vs = "copy_versions (versions up) (versions local)"
  have m1: "merge_versions U local up cfg = local\<lparr>versions := ?vs, dist_tags := tags, readme := rd\<rparr>"
    by (simp add: merge_versions_def f)
  have "fold (refresh_tag U cfg up) (map fst (dist_tags up)) (tags, rd) = (tags, rd)"
    using assms f by (rule fold_refresh_tag_twice)
  then have "merge_versions U (local\<lparr>versions := ?vs, dist_tags := tags, readme := rd\<rparr>) up cfg
      = local\<lparr>versions := ?vs, dist_tags := tags, readme := rd\<rparr>"
    by (simp add: merge_versions_def copy_versions_twice)
  with m1 show ?thesis by simp
qed

theorem merge_versions_idempotent_witness:
  "tag_version_settles example_utils example_config \<and>
   distinct (map fst (dist_tags example_remote)) \<and>
   merge_versions example_utils
       (merge_versions example_utils example_local example_remote example_config)
       example_remote example_config
     = merge_versions example_utils example_local example_remote example_config"
proof -
  have h1: "tag_version_settles example_utils example_config"
    by (rule tag_version_collect_settles) (simp add: example_utils_def)
  have h2: "distinct (map fst (dist_tags example_remote))"
    by (simp add: example_remote_def)
  from h1 h2 merge_versions_idempotent [OF h1 h2, of example_local] show ?thesis
    by simp
qed

section \<open>Properties of the synchronisation\<close>

subsection \<open>What one reply does\<close>











subsection \<open>Uplinks that are skipped\<close>

lemma launch_all_present:
  "uplinks_rec p = Some recs
     \<Longrightarrow> launch_all p clk ups options
         = Inr (map (\<lambda>up. (up, ask_or_skip recs (at_check clk (upname up)) up options)) ups)"
  by (induction ups) (simp_all add: launch_def)

lemma asked_calls_append:
  "asked_calls nm (ls1 @ ls2) = asked_calls nm ls1 @ asked_calls nm ls2"
  by (induction nm ls1 rule: asked_calls.induct) simp_all

lemma asked_calls_upname:
  "Uplink_get_package u nm' opts \<in> set (asked_calls nm ls) \<Longrightarrow> u \<in> upname ` fst ` set ls"
  by (induction nm ls rule: asked_calls.induct) auto

lemma collect_append:
  "collect U cfg nm clk (ls1 @ ls2) st =
     (case collect U cfg nm clk ls1 st of
        Inl f \<Rightarrow> Inl f
      | Inr (st1, errs1) \<Rightarrow>
          (case collect U cfg nm clk ls2 st1 of
             Inl f \<Rightarrow> Inl f
           | Inr (st2, errs2) \<Rightarrow> Inr (st2, errs1 @ errs2)))"
  by (induction U cfg nm clk ls1 st rule: collect.induct)
     (simp_all split: sum.splits prod.splits)

lemma collect_skipped:
  "collect U cfg nm clk (ls1 @ (up, Skipped) # ls2) st =
     (case collect U cfg nm clk (ls1 @ ls2) st of
        Inl f \<Rightarrow> Inl f
      | Inr (st', errs) \<Rightarrow> Inr (st', take (length ls1) errs @ None # drop (length ls1) errs))"
proof -
  have len: "length errs1 = length ls1" if "collect U cfg nm clk ls1 st = Inr (st1, errs1)"
    for st1 errs1 
    using that
    by (induction U cfg nm clk ls1 st arbitrary: st1 errs1 rule: collect.induct)
       (auto split: sum.splits prod.splits)
  show ?thesis
    by (auto simp: collect_append len split: sum.splits prod.splits)
qed

lemma conclude_errs:
  "fst (conclude self nm (st, errs)) = fst (conclude self nm (st, errs'))"
  "cb_err (snd (conclude self nm (st, errs))) = cb_err (snd (conclude self nm (st, errs')))"
  "cb_result (snd (conclude self nm (st, errs))) = cb_result (snd (conclude self nm (st, errs')))"
  by (simp_all add: conclude_def split: prod.splits option.splits)

lemma conclude_uplinks:
  "conclude (self\<lparr>self_uplinks := us\<rparr>) nm r = conclude self nm r"
  by (simp add: conclude_def split: prod.splits)

lemma permitted_uplinks:
  "permitted (self\<lparr>self_uplinks := us\<rparr>) nm = filter (\<lambda>up. proxy_access (self_config self) nm (upname up)) us"
  by (simp add: permitted_def)

lemma sync_with_records:
  assumes "uplinks_rec seed = Some recs"
  shows "sync_package_with_uplinks self nm (Some seed) options =
    (let ls = map (\<lambda>up. (up, ask_or_skip recs (at_check (self_clock self) (upname up)) up options))
                (permitted self nm)
     in case collect (self_utils self) (self_config self) nm (self_clock self) ls (seed, True) of
          Inl f \<Rightarrow> (asked_calls nm ls, Inl f)
        | Inr r \<Rightarrow> (asked_calls nm ls @ fst (conclude self nm r), Inr (snd (conclude self nm r))))"
  using assms by (simp add: sync_package_with_uplinks_def launch_all_present Let_def split: sum.splits)

lemma asked_calls_permitted:
  assumes "Uplink_get_package u nm' opts \<in> set (asked_calls nm (map (\<lambda>up. (up, d up)) (filter P us)))"
  shows "u \<in> upname ` set us"
proof -
  from assms have "u \<in> upname ` fst ` set (map (\<lambda>up. (up, d up)) (filter P us))"
    by (rule asked_calls_upname)
  then show ?thesis by auto
qed

lemma asked_calls_skipped:
  "asked_calls nm (l1 @ (up, Skipped) # l2) = asked_calls nm (l1 @ l2)"
  by (simp add: asked_calls_append)

lemma verdict_Inr: "verdict (Inr c) = Inr (cb_err c, cb_result c)"
  by (simp add: verdict_def)

lemma verdict_Inl: "verdict (Inl f) = Inl f"
  by (simp add: verdict_def)

text \<open>
  C4, as the code has it. An uplink whose sync record in the seed document has a
  \<open>fetched\<close> that is not 0 and lies within \<open>maxage\<close> of the current time is not asked:
  the pass makes the calls it makes without that uplink configured (among them
  the same \<^verbatim>\<open>update_versions\<close> of the same merged document), none of them a
  \<open>get_package\<close> of that uplink, and it ends with the same error and document.
\<close>

theorem sync_skips_fresh_uplink:
  assumes recs: "uplinks_rec seed = Some recs" "map_of recs (upname up) = Some r"
    and fr: "fetched r = Some f" "f \<noteq> 0" "at_check (self_clock self) (upname up) - f < maxage up"
    and ups: "self_uplinks self = us1 @ up # us2" "upname up \<notin> upname ` set (us1 @ us2)"
  shows "fst (sync_package_with_uplinks self nm (Some seed) options)
           = fst (sync_package_with_uplinks (self\<lparr>self_uplinks := us1 @ us2\<rparr>) nm (Some seed) options)
       \<and> verdict (snd (sync_package_with_uplinks self nm (Some seed) options))
           = verdict (snd (sync_package_with_uplinks (self\<lparr>self_uplinks := us1 @ us2\<rparr>) nm (Some seed) options))
       \<and> (\<forall>opts. Uplink_get_package (upname up) nm opts
             \<notin> set (fst (sync_package_with_uplinks self nm (Some seed) options)))"
proof -
  let ?B = "self\<lparr>self_uplinks := us1 @ us2\<rparr>"
  let ?P = "\<lambda>up. proxy_access (self_config self) nm (upname up)"
  let ?d = "\<lambda>up. (up, ask_or_skip recs (at_check (self_clock self) (upname up)) up options)"
  let ?l1 = "map ?d (filter ?P us1)" and ?l2 = "map ?d (filter ?P us2)"
  let ?lA = "map ?d (permitted self nm)"
  let ?coll = "collect (self_utils self) (self_config self) nm (self_clock self)"
  from recs fr have sk: "ask_or_skip recs (at_check (self_clock self) (upname up)) up options = Skipped"
    by (simp add: ask_or_skip_def fresh_def)
  have pB: "map ?d (permitted ?B nm) = ?l1 @ ?l2"
    by (simp add: permitted_uplinks)
  have pA: "?lA = ?l1 @ (up, Skipped) # ?l2 \<or> ?lA = ?l1 @ ?l2"
    using ups(1) sk by (simp add: permitted_def)
  have callsA: "asked_calls nm ?lA = asked_calls nm (?l1 @ ?l2)"
    using pA by (auto simp: asked_calls_skipped)
  have collA: "?coll ?lA (seed, True) =
      (case ?coll (?l1 @ ?l2) (seed, True) of
         Inl f \<Rightarrow> Inl f
       | Inr (st', errs) \<Rightarrow> Inr (st', take (length ?l1) errs @ None # drop (length ?l1) errs))
    \<or> ?coll ?lA (seed, True) = ?coll (?l1 @ ?l2) (seed, True)"
    using pA by (auto simp: collect_skipped)
  have A: "sync_package_with_uplinks self nm (Some seed) options =
      (case ?coll ?lA (seed, True) of
         Inl f \<Rightarrow> (asked_calls nm ?lA, Inl f)
       | Inr r \<Rightarrow> (asked_calls nm ?lA @ fst (conclude self nm r), Inr (snd (conclude self nm r))))"
    using recs(1) by (simp add: sync_with_records Let_def)
  have B: "sync_package_with_uplinks ?B nm (Some seed) options =
      (case ?coll (?l1 @ ?l2) (seed, True) of
         Inl f \<Rightarrow> (asked_calls nm (?l1 @ ?l2), Inl f)
       | Inr r \<Rightarrow> (asked_calls nm (?l1 @ ?l2) @ fst (conclude self nm r), Inr (snd (conclude self nm r))))"
    using recs(1) by (simp add: sync_with_records [of seed recs ?B] Let_def pB conclude_uplinks cong: sum.case_cong)
  have same: "fst (sync_package_with_uplinks self nm (Some seed) options)
        = fst (sync_package_with_uplinks ?B nm (Some seed) options)
      \<and> verdict (snd (sync_package_with_uplinks self nm (Some seed) options))
        = verdict (snd (sync_package_with_uplinks ?B nm (Some seed) options))"
  proof (cases "?coll (?l1 @ ?l2) (seed, True)")
    case (Inl f)
    with collA have "?coll ?lA (seed, True) = Inl f" by auto
    with Inl show ?thesis
      unfolding A B by (simp add: callsA)
  next
    case (Inr r)
    obtain st' errs where r: "r = (st', errs)" by (cases r)
    from collA Inr r obtain errs' where "?coll ?lA (seed, True) = Inr (st', errs')"
      by auto
    with Inr r show ?thesis
      unfolding A B
      using conclude_errs [of self nm st' errs' errs]
      by (simp add: callsA verdict_Inr)
  qed
  moreover have "Uplink_get_package (upname up) nm opts
      \<notin> set (fst (sync_package_with_uplinks ?B nm (Some seed) options))" for opts
  proof
    assume "Uplink_get_package (upname up) nm opts
      \<in> set (fst (sync_package_with_uplinks ?B nm (Some seed) options))"
    then have "Uplink_get_package (upname up) nm opts \<in> set (asked_calls nm (?l1 @ ?l2))"
      unfolding B by (auto simp: conclude_def split: sum.splits prod.splits if_splits)
    then have "Uplink_get_package (upname up) nm opts \<in> set (asked_calls nm (map ?d (filter ?P (us1 @ us2))))"
      by simp
    then have "upname up \<in> upname ` set (us1 @ us2)"
      by (rule asked_calls_permitted)
    with ups(2) show False by simp
  qed
  ultimately show ?thesis by simp
qed

lemma sync_calls_prefix:
  assumes "uplinks_rec seed = Some recs"
  shows "\<exists>rest. fst (sync_package_with_uplinks self nm (Some seed) options)
     = asked_calls nm (map (\<lambda>up. (up, ask_or_skip recs (at_check (self_clock self) (upname up)) up options))
         (permitted self nm)) @ rest"
  by (simp add: sync_with_records [OF assms] Let_def split: sum.splits)

theorem sync_skips_fresh_uplink_witness:
  "uplinks_rec example_seed = Some [(''npmjs'', \<lparr>etag = Some ''e1'', fetched = Some 1699999999000\<rparr>)]
   \<and> (1699999999000::int) \<noteq> 0
   \<and> at_check (self_clock example_storage) (upname example_uplink) - 1699999999000 < maxage example_uplink
   \<and> self_uplinks example_storage = [] @ example_uplink # []
   \<and> fst (sync_package_with_uplinks example_storage ''pkg'' (Some example_seed) no_options)
        = fst (sync_package_with_uplinks (example_storage\<lparr>self_uplinks := [] @ []\<rparr>) ''pkg'' (Some example_seed) no_options)
   \<and> verdict (snd (sync_package_with_uplinks example_storage ''pkg'' (Some example_seed) no_options))
        = verdict (snd (sync_package_with_uplinks (example_storage\<lparr>self_uplinks := [] @ []\<rparr>) ''pkg'' (Some example_seed) no_options))
   \<and> (\<forall>opts. Uplink_get_package (upname example_uplink) ''pkg'' opts
         \<notin> set (fst (sync_package_with_uplinks example_storage ''pkg'' (Some example_seed) no_options)))"
proof -
  let ?r = "\<lparr>etag = Some ''e1'', fetched = Some (1699999999000::int)\<rparr>"
  have h1: "uplinks_rec example_seed = Some [(''npmjs'', ?r)]"
    by (simp add: example_seed_def)
  have h2: "map_of [(''npmjs'', ?r)] (upname example_uplink) = Some ?r"
    by (simp add: example_uplink_def)
  have h3: "fetched ?r = Some 1699999999000" by simp
  have h4: "(1699999999000::int) \<noteq> 0" by simp
  have h5: "at_check (self_clock example_storage) (upname example_uplink) - 1699999999000 < maxage example_uplink"
    by (simp add: example_storage_def example_clock_def example_uplink_def)
  have h6: "self_uplinks example_storage = [] @ example_uplink # []"
    by (simp add: example_storage_def)
  have h7: "upname example_uplink \<notin> upname ` set ([] @ [])" by simp
  from sync_skips_fresh_uplink [OF h1 h2 h3 h4 h5 h6 h7, of "''pkg''" no_options] h1 h4 h5 h6
  show ?thesis by blast
qed

theorem sync_skip_counterexample:
  "uplinks_rec stale_seed = Some [(''npmjs'', \<lparr>etag = Some ''e1'', fetched = Some 0\<rparr>)]
   \<and> upname patient_uplink = ''npmjs''
   \<and> at_check (self_clock patient_storage) ''npmjs'' - 0 < maxage patient_uplink
   \<and> hd (fst (sync_package_with_uplinks patient_storage ''pkg'' (Some stale_seed) no_options))
        = Uplink_get_package ''npmjs'' ''pkg'' \<lparr>opt_etag = Some ''e1'', opt_req = None\<rparr>"
proof -
  have recs: "uplinks_rec stale_seed = Some [(''npmjs'', \<lparr>etag = Some ''e1'', fetched = Some 0\<rparr>)]"
    by (simp add: stale_seed_def)
  have perm: "permitted patient_storage ''pkg'' = [patient_uplink]"
    by (simp add: permitted_def patient_storage_def example_storage_def example_config_def)
  have ask: "ask_or_skip [(''npmjs'', \<lparr>etag = Some ''e1'', fetched = Some 0\<rparr>)]
      (at_check (self_clock patient_storage) (upname patient_uplink)) patient_uplink no_options
      = Asked \<lparr>opt_etag = Some ''e1'', opt_req = None\<rparr>"
    by (simp add: ask_or_skip_def fresh_def patient_uplink_def example_uplink_def no_options_def)
  from sync_calls_prefix [OF recs, of patient_storage "''pkg''" no_options]
  obtain rest where "fst (sync_package_with_uplinks patient_storage ''pkg'' (Some stale_seed) no_options)
      = asked_calls ''pkg'' [(patient_uplink, Asked \<lparr>opt_etag = Some ''e1'', opt_req = None\<rparr>)] @ rest"
    by (auto simp: perm ask)
  then have "hd (fst (sync_package_with_uplinks patient_storage ''pkg'' (Some stale_seed) no_options))
        = Uplink_get_package ''npmjs'' ''pkg'' \<lparr>opt_etag = Some ''e1'', opt_req = None\<rparr>"
    by (simp add: patient_uplink_def example_uplink_def)
  moreover have "upname patient_uplink = ''npmjs''"
    by (simp add: patient_uplink_def example_uplink_def)
  moreover have "at_check (self_clock patient_storage) ''npmjs'' - 0 < maxage patient_uplink"
    by (simp add: patient_storage_def example_storage_def example_clock_def patient_uplink_def)
  ultimately show ?thesis using recs by simp
qed

section \<open>Properties of \<open>add_package\<close>\<close>




lemma launch_all_skeleton:
  "launch_all (skeleton nm) clk ups options = Inr (map (\<lambda>up. (up, Asked options)) ups)"
proof -
  have "uplinks_rec (skeleton nm) = Some []" by (simp add: skeleton_def)
  from launch_all_present [OF this] show ?thesis
    by (simp add: ask_or_skip_def)
qed























section \<open>Properties of \<open>get_package\<close>\<close>

lemma fst_get_package_sync:
  assumes "local_get_package (self_local self) nm options = (err, data)" and "\<not> internal_error err"
  shows "fst (get_package self nm options)
     = Local_get_package nm # fst (sync_package_with_uplinks self nm data options)"
  using assms
  by (simp add: get_package_def split: prod.splits sum.splits option.splits)

text \<open>
  C7, as the code has it. An error of the local store that has no status, or the
  status 0, or a status of 500 and more, ends \<open>get_package\<close> with that error and
  no uplink is asked. Without an error, and with an error whose status is
  between 1 and 499 (404 is one of them), the pass over the uplinks is run with
  what the local store gave.
\<close>

theorem get_package_local_error:
  "(local_get_package (self_local self) nm options = (Some e, data)
      \<and> (status e = None \<or> status e = Some 0 \<or> (\<exists>s. status e = Some s \<and> 500 \<le> s))
     \<longrightarrow> get_package self nm options
          = ([Local_get_package nm], Inr \<lparr>cb_err = Some e, cb_result = None, cb_uplink_errors = None\<rparr>))
   \<and> (local_get_package (self_local self) nm options = (err, data)
      \<and> (err = None \<or> (\<exists>e' s. err = Some e' \<and> status e' = Some s \<and> 0 < s \<and> s < 500))
     \<longrightarrow> fst (get_package self nm options)
          = Local_get_package nm # fst (sync_package_with_uplinks self nm data options))"
proof (intro conjI impI)
  assume a: "local_get_package (self_local self) nm options = (Some e, data)
      \<and> (status e = None \<or> status e = Some 0 \<or> (\<exists>s. status e = Some s \<and> 500 \<le> s))"
  then have "internal_error (Some e)"
    by (auto simp: internal_error_def)
  with a show "get_package self nm options
      = ([Local_get_package nm], Inr \<lparr>cb_err = Some e, cb_result = None, cb_uplink_errors = None\<rparr>)"
    by (simp add: get_package_def)
next
  assume a: "local_get_package (self_local self) nm options = (err, data)
      \<and> (err = None \<or> (\<exists>e' s. err = Some e' \<and> status e' = Some s \<and> 0 < s \<and> s < 500))"
  then have "\<not> internal_error err"
    by (auto simp: internal_error_def)
  with a show "fst (get_package self nm options)
      = Local_get_package nm # fst (sync_package_with_uplinks self nm data options)"
    by (simp add: fst_get_package_sync)
qed

theorem get_package_local_error_witness:
  "local_get_package (self_local failing_storage) ''pkg'' no_options = (Some (plain_error ''EIO''), None)
   \<and> status (plain_error ''EIO'') = None
   \<and> get_package failing_storage ''pkg'' no_options
        = ([Local_get_package ''pkg''],
           Inr \<lparr>cb_err = Some (plain_error ''EIO''), cb_result = None, cb_uplink_errors = None\<rparr>)
   \<and> local_get_package (self_local example_storage) ''pkg'' no_options
        = (Some (http_error 404 ''no such package''), None)
   \<and> status (http_error 404 ''no such package'') = Some 404
   \<and> fst (get_package example_storage ''pkg'' no_options)
        = Local_get_package ''pkg'' # fst (sync_package_with_uplinks example_storage ''pkg'' None no_options)"
proof -
  have h1: "local_get_package (self_local failing_storage) ''pkg'' no_options = (Some (plain_error ''EIO''), None)"
    by code_simp
  have h2: "status (plain_error ''EIO'') = None"
    by (simp add: plain_error_def)
  have h3: "local_get_package (self_local example_storage) ''pkg'' no_options
      = (Some (http_error 404 ''no such package''), None)"
    by code_simp
  have h4: "status (http_error 404 ''no such package'') = Some 404"
    by (simp add: http_error_def)
  from get_package_local_error [where self = failing_storage and nm = "''pkg''" and options = no_options
      and e = "plain_error ''EIO''" and data = None] h1 h2
  have c1: "get_package failing_storage ''pkg'' no_options
      = ([Local_get_package ''pkg''],
         Inr \<lparr>cb_err = Some (plain_error ''EIO''), cb_result = None, cb_uplink_errors = None\<rparr>)"
    by simp
  from get_package_local_error [where self = example_storage and nm = "''pkg''" and options = no_options
      and err = "Some (http_error 404 ''no such package'')" and data = None] h3 h4
  have c2: "fst (get_package example_storage ''pkg'' no_options)
      = Local_get_package ''pkg'' # fst (sync_package_with_uplinks example_storage ''pkg'' None no_options)"
    by simp
  from h1 h2 c1 h3 h4 c2 show ?thesis by simp
qed

text \<open>
  The local store answers 403: the error is not 404, and the uplink is asked all
  the same.
\<close>

theorem get_package_local_error_counterexample:
  "local_get_package (self_local forbidden_storage) ''pkg'' no_options
      = (Some (http_error 403 ''forbidden''), None)
   \<and> status (http_error 403 ''forbidden'') \<noteq> Some 404
   \<and> Uplink_get_package ''npmjs'' ''pkg'' no_options
        \<in> set (fst (get_package forbidden_storage ''pkg'' no_options))
   \<and> map_sum id cb_err (snd (get_package forbidden_storage ''pkg'' no_options)) = Inr None"
  by code_simp

subsection \<open>The whitelist\<close>

lemma whitelist_core:
  "''name'' \<in> set whitelist" "''versions'' \<in> set whitelist" "''dist-tags'' \<in> set whitelist"
  "''readme'' \<in> set whitelist" "''_rev'' \<in> set whitelist"
  by (simp_all add: whitelist_def)

lemma in_opt_key: "k \<in> set (opt_key k' v) \<longleftrightarrow> k = k' \<and> v \<noteq> None"
  by (cases v) (simp_all add: opt_key_def)

lemma in_own_keys:
  "k \<in> set (own_keys p) \<longleftrightarrow>
     k = ''name'' \<or> k = ''versions'' \<or> k = ''dist-tags''
     \<or> (k = ''readme'' \<and> readme p \<noteq> None)
     \<or> (k = ''_rev'' \<and> rev p \<noteq> None)
     \<or> (k = ''_uplinks'' \<and> uplinks_rec p \<noteq> None)
     \<or> (k = ''_distfiles'' \<and> distfiles p \<noteq> None)
     \<or> (k = ''_attachments'' \<and> attachments p \<noteq> None)
     \<or> k \<in> fst ` set (extra p)"
  unfolding own_keys_def set_append Un_iff in_opt_key by simp

lemma own_keys_delete_key:
  assumes "i \<notin> set whitelist"
  shows "set (own_keys (delete_key i p)) \<subseteq> set (own_keys p) - {i}"
proof
  fix k
  assume k: "k \<in> set (own_keys (delete_key i p))"
  from assms whitelist_core have core: "i \<noteq> ''name''" "i \<noteq> ''versions''" "i \<noteq> ''dist-tags''"
    by auto
  have ex: "fst ` set (AList.delete i (extra p)) \<subseteq> fst ` set (extra p) - {i}"
    using delete_notin_dom [of i "extra p"] dom_delete_subset [of i "extra p"] by blast
  from k have "k = ''name'' \<or> k = ''versions'' \<or> k = ''dist-tags''
     \<or> (k = ''readme'' \<and> i \<noteq> ''readme'' \<and> readme p \<noteq> None)
     \<or> (k = ''_rev'' \<and> i \<noteq> ''_rev'' \<and> rev p \<noteq> None)
     \<or> (k = ''_uplinks'' \<and> i \<noteq> ''_uplinks'' \<and> uplinks_rec p \<noteq> None)
     \<or> (k = ''_distfiles'' \<and> i \<noteq> ''_distfiles'' \<and> distfiles p \<noteq> None)
     \<or> (k = ''_attachments'' \<and> i \<noteq> ''_attachments'' \<and> attachments p \<noteq> None)
     \<or> k \<in> fst ` set (AList.delete i (extra p))"
    unfolding in_own_keys delete_key_def by (simp split: if_splits)
  then have "k \<in> set (own_keys p) \<and> k \<noteq> i"
  proof (elim disjE conjE)
    assume "k = ''name''"
    with core show ?thesis unfolding in_own_keys by blast
  next
    assume "k = ''versions''"
    with core show ?thesis unfolding in_own_keys by blast
  next
    assume "k = ''dist-tags''"
    with core show ?thesis unfolding in_own_keys by blast
  next
    assume "k = ''readme''" "i \<noteq> ''readme''" "readme p \<noteq> None"
    then show ?thesis unfolding in_own_keys by blast
  next
    assume "k = ''_rev''" "i \<noteq> ''_rev''" "rev p \<noteq> None"
    then show ?thesis unfolding in_own_keys by blast
  next
    assume "k = ''_uplinks''" "i \<noteq> ''_uplinks''" "uplinks_rec p \<noteq> None"
    then show ?thesis unfolding in_own_keys by blast
  next
    assume "k = ''_distfiles''" "i \<noteq> ''_distfiles''" "distfiles p \<noteq> None"
    then show ?thesis unfolding in_own_keys by blast
  next
    assume "k = ''_attachments''" "i \<noteq> ''_attachments''" "attachments p \<noteq> None"
    then show ?thesis unfolding in_own_keys by blast
  next
    assume "k \<in> fst ` set (AList.delete i (extra p))"
    with ex have "k \<in> fst ` set (extra p)" "k \<noteq> i" by auto
    then show ?thesis unfolding in_own_keys by blast
  qed
  then show "k \<in> set (own_keys p) - {i}" by simp
qed

lemma own_keys_strip_key:
  "set (own_keys (strip_key i p)) \<subseteq> set (own_keys p) - ({i} - set whitelist)"
  using own_keys_delete_key [of i p] by (auto simp: strip_key_def)

lemma own_keys_fold_strip_key:
  "set (own_keys (fold strip_key ks p)) \<subseteq> set (own_keys p) - (set ks - set whitelist)"
proof (induction ks arbitrary: p)
  case Nil
  show ?case by simp
next
  case (Cons i ks)
  from Cons.IH [of "strip_key i p"] own_keys_strip_key [of i p] show ?case
    by auto
qed

lemma own_keys_strip_keys: "set (own_keys (strip_keys p)) \<subseteq> set whitelist"
  using own_keys_fold_strip_key [of "own_keys p" p] by (auto simp: strip_keys_def)

lemma fold_strip_key_frame:
  "versions (fold strip_key ks p) = versions p \<and> dist_tags (fold strip_key ks p) = dist_tags p"
  by (induction ks arbitrary: p) (simp_all add: strip_key_def delete_key_def)

lemma strip_keys_frame:
  "versions (strip_keys p) = versions p" "dist_tags (strip_keys p) = dist_tags p"
  by (simp_all add: strip_keys_def fold_strip_key_frame)

subsection \<open>The dist-tags\<close>

lemma collapsed_twice: "collapsed (collapsed t) = collapsed t"
  by (simp add: collapsed_def split: option.splits tagval.splits)

lemma map_of_collapse_tag:
  "map_of (collapse_tag i tags) k = (if k = i then collapsed (map_of tags k) else map_of tags k)"
  by (simp add: collapse_tag_def collapsed_def update_conv' delete_conv'
        split: option.splits tagval.splits)

lemma map_of_fold_collapse_tag:
  "map_of (fold collapse_tag ks tags) k
     = (if k \<in> set ks then collapsed (map_of tags k) else map_of tags k)"
proof (induction ks arbitrary: tags)
  case Nil
  show ?case by simp
next
  case (Cons i ks)
  show ?case
    by (simp add: Cons.IH map_of_collapse_tag collapsed_twice)
qed

lemma map_of_collapse_tags: "map_of (collapse_tags tags) k = collapsed (map_of tags k)"
proof (cases "k \<in> set (map fst tags)")
  case True
  then show ?thesis by (simp add: collapse_tags_def map_of_fold_collapse_tag)
next
  case False
  then have "map_of tags k = None" by (simp add: map_of_eq_None_iff)
  with False show ?thesis
    by (simp add: collapse_tags_def map_of_fold_collapse_tag collapsed_def)
qed

lemma set_latest_frame:
  "versions (set_latest U cfg p) = versions p"
  "readme (set_latest U cfg p) = readme p" "rev (set_latest U cfg p) = rev p"
  "uplinks_rec (set_latest U cfg p) = uplinks_rec p" "distfiles (set_latest U cfg p) = distfiles p"
  "attachments (set_latest U cfg p) = attachments p" "extra (set_latest U cfg p) = extra p"
  by (simp_all add: set_latest_def)

lemma set_latest_strip_keys:
  "dist_tags (set_latest U cfg (strip_keys p)) = dist_tags (set_latest U cfg p)"
  by (simp add: set_latest_def strip_keys_frame)

subsection \<open>The document that is handed out\<close>

lemma postprocess_versions: "versions (postprocess U cfg r) = versions r"
  by (simp add: postprocess_def Let_def set_latest_frame strip_keys_frame)

lemma postprocess_attachments: "attachments (postprocess U cfg r) = Some []"
  by (simp add: postprocess_def Let_def)

lemma postprocess_dist_tags:
  "map_of (dist_tags (postprocess U cfg r)) k = collapsed (map_of (dist_tags (set_latest U cfg r)) k)"
  by (simp add: postprocess_def Let_def map_of_collapse_tags set_latest_strip_keys)

lemma postprocess_own_keys:
  "set (own_keys (postprocess U cfg r)) \<subseteq> set whitelist \<union> {''_attachments''}"
proof
  fix k
  assume "k \<in> set (own_keys (postprocess U cfg r))"
  then have "k = ''_attachments'' \<or> k \<in> set (own_keys (strip_keys r))"
    unfolding in_own_keys
    by (simp add: postprocess_def Let_def set_latest_frame) (elim disjE conjE; simp)
  with own_keys_strip_keys [of r] show "k \<in> set whitelist \<union> {''_attachments''}"
    by blast
qed

lemma postprocess_latest:
  assumes "ignore_latest_tag cfg \<or> falsy (map_of (dist_tags r) ''latest'')"
  shows "map_of (dist_tags (postprocess U cfg r)) ''latest''
     = (case semver_sort U (map fst (versions r)) of
          [] \<Rightarrow> None
        | v # vs \<Rightarrow> Some (TagStr (last (v # vs))))"
proof -
  from assms have "map_of (dist_tags (set_latest U cfg r)) ''latest''
      = Some (TagList (semver_sort U (map fst (versions r))))"
    by (simp add: set_latest_def update_conv')
  then show ?thesis
    by (simp add: postprocess_dist_tags collapsed_def split: list.splits)
qed

subsection \<open>The versions that the uplinks bring\<close>

lemma keys_copy_versions:
  "fst ` set (copy_versions upv lv) = fst ` set lv \<union> fst ` set upv"
proof -
  have "k \<in> fst ` set (copy_versions upv lv) \<longleftrightarrow> k \<in> fst ` set lv \<or> k \<in> fst ` set upv" for k
  proof -
    have "k \<in> fst ` set (copy_versions upv lv) \<longleftrightarrow> map_of (copy_versions upv lv) k \<noteq> None"
      by (simp add: map_of_eq_None_iff)
    also have "\<dots> \<longleftrightarrow> map_of lv k \<noteq> None \<or> map_of upv k \<noteq> None"
      by (simp add: copy_versions_lookup split: option.splits)
    also have "\<dots> \<longleftrightarrow> k \<in> fst ` set lv \<or> k \<in> fst ` set upv"
      by (simp add: map_of_eq_None_iff)
    finally show ?thesis .
  qed
  then show ?thesis by blast
qed

lemma touch_fetched_versions:
  "touch_fetched u now p = Inr p' \<Longrightarrow> versions p' = versions p"
  by (auto simp: touch_fetched_def split: option.splits)

lemma set_uprec_versions:
  "set_uprec u r p = Inr p' \<Longrightarrow> versions p' = versions p"
  by (auto simp: set_uprec_def split: option.splits)

lemma on_reply_versions:
  assumes "on_reply U cfg nm u now rep st = Inr (st1, slot)"
  shows "fst ` set (versions (fst st)) \<subseteq> fst ` set (versions (fst st1))"
    and "rep = (None, Some res, etg) \<Longrightarrow> validate_metadata U res nm = None
           \<Longrightarrow> fst ` set (versions res) \<subseteq> fst ` set (versions (fst st1))"
proof -
  obtain err up_res e where rep: "rep = (err, up_res, e)" by (cases rep)
  from assms rep obtain p0 where
      t: "(if is_304 err then touch_fetched u now (fst st) else Inr (fst st)) = Inr p0"
    by (auto simp: on_reply_def split: sum.splits)
  then have v0: "versions p0 = versions (fst st)"
    by (auto split: if_splits dest: touch_fetched_versions)
  have rest: "(case err of
         Some e \<Rightarrow> Inr ((p0, snd st), Some e)
       | None \<Rightarrow>
           (case up_res of
              None \<Rightarrow> Inr ((p0, snd st), Some (http_error 500 ''no data''))
            | Some res \<Rightarrow>
                (case validate_metadata U res nm of
                   Some e \<Rightarrow> Inr ((p0, snd st), Some e)
                 | None \<Rightarrow>
                     (case set_uprec u \<lparr>etag = e, fetched = Some now\<rparr> p0 of
                        Inl f \<Rightarrow> Inl f
                      | Inr pkginfo' \<Rightarrow> Inr ((merge_versions U pkginfo' res cfg, True), None)))))
      = Inr (st1, slot)"
    using assms rep t by (simp add: on_reply_def)
  from rest have "fst st1 = p0
      \<or> (\<exists>res' p'. err = None \<and> up_res = Some res' \<and> validate_metadata U res' nm = None
            \<and> versions p' = versions p0 \<and> fst st1 = merge_versions U p' res' cfg)"
    by (auto split: option.splits sum.splits dest: set_uprec_versions)
  then have keys: "fst ` set (versions (fst st1)) = fst ` set (versions (fst st))
      \<or> (\<exists>res'. err = None \<and> up_res = Some res' \<and> validate_metadata U res' nm = None
            \<and> fst ` set (versions (fst st1))
                = fst ` set (versions (fst st)) \<union> fst ` set (versions res'))"
    using v0 by (auto simp: versions_merge_versions keys_copy_versions)
  then show "fst ` set (versions (fst st)) \<subseteq> fst ` set (versions (fst st1))"
    by blast
  show "fst ` set (versions res) \<subseteq> fst ` set (versions (fst st1))"
    if "rep = (None, Some res, etg)" and "validate_metadata U res nm = None"
  proof -
    from that rep have "err = None" "up_res = Some res" by simp_all
    with rest that(2) obtain p' where "versions p' = versions p0"
        and "fst st1 = merge_versions U p' res cfg"
      by (auto split: sum.splits dest: set_uprec_versions)
    then show ?thesis
      by (simp add: versions_merge_versions keys_copy_versions)
  qed
qed

lemma collect_versions:
  assumes "collect U cfg nm clk (map (\<lambda>up. (up, Asked options)) ups) st = Inr (st', errs)"
  shows "fst ` set (versions (fst st)) \<subseteq> fst ` set (versions (fst st'))
     \<and> (\<forall>up \<in> set ups. \<forall>res etg. up_get_package up nm options = (None, Some res, etg)
           \<longrightarrow> validate_metadata U res nm = None
           \<longrightarrow> fst ` set (versions res) \<subseteq> fst ` set (versions (fst st')))"
  using assms
proof (induction ups arbitrary: st st' errs)
  case Nil
  then show ?case by simp
next
  case (Cons up ups)
  from Cons.prems obtain st1 slot errs1 where
      r: "on_reply U cfg nm (upname up) (at_reply clk (upname up)) (up_get_package up nm options) st = Inr (st1, slot)"
      and c: "collect U cfg nm clk (map (\<lambda>up. (up, Asked options)) ups) st1 = Inr (st', errs1)"
    by (auto split: sum.splits prod.splits)
  from Cons.IH [OF c] have
      mono: "fst ` set (versions (fst st1)) \<subseteq> fst ` set (versions (fst st'))"
      and rest: "\<forall>up \<in> set ups. \<forall>res etg. up_get_package up nm options = (None, Some res, etg)
           \<longrightarrow> validate_metadata U res nm = None
           \<longrightarrow> fst ` set (versions res) \<subseteq> fst ` set (versions (fst st'))"
    by blast+
  from on_reply_versions(1) [OF r] mono
  have base: "fst ` set (versions (fst st)) \<subseteq> fst ` set (versions (fst st'))"
    by blast
  have head: "fst ` set (versions res) \<subseteq> fst ` set (versions (fst st'))"
    if "up_get_package up nm options = (None, Some res, etg)" and "validate_metadata U res nm = None"
    for res etg
    using on_reply_versions(2) [OF r that] mono by blast
  show ?case
  proof (intro conjI ballI allI impI)
    show "fst ` set (versions (fst st)) \<subseteq> fst ` set (versions (fst st'))"
      by (rule base)
  next
    fix u res etg
    assume u: "u \<in> set (up # ups)"
      and g: "up_get_package u nm options = (None, Some res, etg)"
      and v: "validate_metadata U res nm = None"
    show "fst ` set (versions res) \<subseteq> fst ` set (versions (fst st'))"
    proof (cases "u = up")
      case True
      with g v show ?thesis by (intro head) simp_all
    next
      case False
      with u have "u \<in> set ups" by simp
      with rest g v show ?thesis by blast
    qed
  qed
qed

lemma sync_unknown_result:
  assumes "sync_package_with_uplinks self nm None options = (calls, Inr r)"
    and "cb_err r = None" and "cb_result r = Some result"
  shows "\<exists>p errs. collect (self_utils self) (self_config self) nm (self_clock self)
             (map (\<lambda>up. (up, Asked options)) (permitted self nm)) (skeleton nm, False)
           = Inr ((p, True), errs)
         \<and> local_update_versions (self_local self) nm p = (None, Some result)"
proof -
  let ?ls = "map (\<lambda>up. (up, Asked options)) (permitted self nm)"
  from assms(1) obtain r0 where
      c: "collect (self_utils self) (self_config self) nm (self_clock self) ?ls (skeleton nm, False) = Inr r0"
      and r: "r = snd (conclude self nm r0)"
    by (auto simp: sync_package_with_uplinks_def launch_all_skeleton split: sum.splits)
  obtain p ex errs where r0: "r0 = ((p, ex), errs)" by (cases r0) auto
  from r r0 assms(2,3) have "ex" and "local_update_versions (self_local self) nm p = (None, Some result)"
    by (auto simp: conclude_def split: if_splits prod.splits option.splits)
  with c r0 show ?thesis by auto
qed

lemma get_package_success:
  assumes "local_get_package (self_local self) nm options = (err, data)" and "\<not> internal_error err"
    and "snd (get_package self nm options) = Inr \<lparr>cb_err = None, cb_result = Some doc, cb_uplink_errors = errs\<rparr>"
  shows "\<exists>calls r. sync_package_with_uplinks self nm data options
             = (calls, Inr \<lparr>cb_err = None, cb_result = Some r, cb_uplink_errors = errs\<rparr>)
           \<and> doc = postprocess (self_utils self) (self_config self) r"
proof -
  obtain calls res where s: "sync_package_with_uplinks self nm data options = (calls, res)"
    by (cases "sync_package_with_uplinks self nm data options")
  with assms obtain c r where "res = Inr c" and "cb_err c = None" and "cb_result c = Some r"
      and "cb_uplink_errors c = errs"
      and "doc = postprocess (self_utils self) (self_config self) r"
    by (auto simp: get_package_def split: sum.splits option.splits)
  moreover from this have "c = \<lparr>cb_err = None, cb_result = Some r, cb_uplink_errors = errs\<rparr>"
    by (cases c) simp
  ultimately show ?thesis using s by auto
qed

text \<open>
  C3. A package that the local store does not have, and a \<open>get_package\<close> that
  ends with a document. The local store is taken to hand back from
  \<^verbatim>\<open>update_versions\<close> the document it was given (spec 4.3). Then
  \<^item> the document has every version of every document that a permitted uplink
    answered with and that passed validation;
  \<^item> its keys are on the whitelist, or \<^verbatim>\<open>_attachments\<close>;
  \<^item> its \<^verbatim>\<open>_attachments\<close> is the empty object;
  \<^item> with \<open>r\<close> the document of the pass: every dist-tag of \<open>r\<close> (after \<^verbatim>\<open>latest\<close>
    was set) that is a list is its last element, or is gone when the list is
    empty, and the others are as they were;
  \<^item> when \<open>ignore_latest_tag\<close> is set or \<open>r\<close> has no \<^verbatim>\<open>latest\<close>, the tag \<^verbatim>\<open>latest\<close> is the
    last, that is the greatest, of the sorted versions of \<open>r\<close>, and is missing
    when \<open>semver_sort\<close> keeps none.
\<close>

theorem get_package_remote_only:
  assumes "local_get_package (self_local self) nm options = (err, None)" and "\<not> internal_error err"
    and "\<forall>p e r. local_update_versions (self_local self) nm p = (e, Some r) \<longrightarrow> r = p"
    and "snd (get_package self nm options)
           = Inr \<lparr>cb_err = None, cb_result = Some doc, cb_uplink_errors = errs\<rparr>"
  shows "(\<forall>up \<in> set (permitted self nm). \<forall>res etg.
            up_get_package up nm options = (None, Some res, etg)
            \<longrightarrow> validate_metadata (self_utils self) res nm = None
            \<longrightarrow> fst ` set (versions res) \<subseteq> fst ` set (versions doc))
       \<and> set (own_keys doc) \<subseteq> set whitelist \<union> {''_attachments''}
       \<and> attachments doc = Some []
       \<and> (\<exists>calls r. sync_package_with_uplinks self nm None options
               = (calls, Inr \<lparr>cb_err = None, cb_result = Some r, cb_uplink_errors = errs\<rparr>)
            \<and> (\<forall>k. map_of (dist_tags doc) k
                    = collapsed (map_of (dist_tags (set_latest (self_utils self) (self_config self) r)) k))
            \<and> (ignore_latest_tag (self_config self) \<or> falsy (map_of (dist_tags r) ''latest'')
                 \<longrightarrow> map_of (dist_tags doc) ''latest''
                       = (case semver_sort (self_utils self) (map fst (versions r)) of
                            [] \<Rightarrow> None
                          | v # vs \<Rightarrow> Some (TagStr (last (v # vs))))))"
proof -
  let ?U = "self_utils self" and ?cfg = "self_config self"
  from get_package_success [OF assms(1,2,4)] obtain calls r where
      s: "sync_package_with_uplinks self nm None options
            = (calls, Inr \<lparr>cb_err = None, cb_result = Some r, cb_uplink_errors = errs\<rparr>)"
      and doc: "doc = postprocess ?U ?cfg r"
    by blast
  from sync_unknown_result [OF s] obtain p errs0 where
      c: "collect ?U ?cfg nm (self_clock self)
            (map (\<lambda>up. (up, Asked options)) (permitted self nm)) (skeleton nm, False)
          = Inr ((p, True), errs0)"
      and u: "local_update_versions (self_local self) nm p = (None, Some r)"
    by auto
  from u assms(3) have "r = p" by blast
  with collect_versions [OF c] have remote:
    "\<forall>up \<in> set (permitted self nm). \<forall>res etg.
        up_get_package up nm options = (None, Some res, etg)
        \<longrightarrow> validate_metadata ?U res nm = None
        \<longrightarrow> fst ` set (versions res) \<subseteq> fst ` set (versions r)"
    by simp
  have "versions doc = versions r"
    by (simp add: doc postprocess_versions)
  with remote have 1: "\<forall>up \<in> set (permitted self nm). \<forall>res etg.
        up_get_package up nm options = (None, Some res, etg)
        \<longrightarrow> validate_metadata ?U res nm = None
        \<longrightarrow> fst ` set (versions res) \<subseteq> fst ` set (versions doc)"
    by simp
  have 2: "set (own_keys doc) \<subseteq> set whitelist \<union> {''_attachments''}"
    unfolding doc by (rule postprocess_own_keys)
  have 3: "attachments doc = Some []"
    by (simp add: doc postprocess_attachments)
  have 4: "\<forall>k. map_of (dist_tags doc) k = collapsed (map_of (dist_tags (set_latest ?U ?cfg r)) k)"
    by (simp add: doc postprocess_dist_tags)
  have 5: "ignore_latest_tag ?cfg \<or> falsy (map_of (dist_tags r) ''latest'')
      \<longrightarrow> map_of (dist_tags doc) ''latest''
            = (case semver_sort ?U (map fst (versions r)) of
                 [] \<Rightarrow> None
               | v # vs \<Rightarrow> Some (TagStr (last (v # vs))))"
    unfolding doc by (intro impI postprocess_latest)
  from s 4 5 have "\<exists>calls r. sync_package_with_uplinks self nm None options
               = (calls, Inr \<lparr>cb_err = None, cb_result = Some r, cb_uplink_errors = errs\<rparr>)
            \<and> (\<forall>k. map_of (dist_tags doc) k = collapsed (map_of (dist_tags (set_latest ?U ?cfg r)) k))
            \<and> (ignore_latest_tag ?cfg \<or> falsy (map_of (dist_tags r) ''latest'')
                 \<longrightarrow> map_of (dist_tags doc) ''latest''
                       = (case semver_sort ?U (map fst (versions r)) of
                            [] \<Rightarrow> None
                          | v # vs \<Rightarrow> Some (TagStr (last (v # vs)))))"
    by blast
  with 1 2 3 show ?thesis by blast
qed

theorem get_package_remote_only_witness:
  "local_get_package (self_local example_storage) ''pkg'' no_options
      = (Some (http_error 404 ''no such package''), None)
   \<and> \<not> internal_error (Some (http_error 404 ''no such package''))
   \<and> snd (get_package example_storage ''pkg'' no_options)
        = Inr \<lparr>cb_err = None, cb_result = Some example_doc, cb_uplink_errors = Some [None]\<rparr>
   \<and> up_get_package example_uplink ''pkg'' no_options = (None, Some example_remote, Some ''e2'')
   \<and> fst ` set (versions example_remote) \<subseteq> fst ` set (versions example_doc)
   \<and> set (own_keys example_doc) \<subseteq> set whitelist \<union> {''_attachments''}
   \<and> attachments example_doc = Some []"
proof -
  have h1: "local_get_package (self_local example_storage) ''pkg'' no_options
      = (Some (http_error 404 ''no such package''), None)"
    by code_simp
  have h2: "\<not> internal_error (Some (http_error 404 ''no such package''))"
    by code_simp
  have h3: "\<forall>p e r. local_update_versions (self_local example_storage) ''pkg'' p = (e, Some r) \<longrightarrow> r = p"
    by (simp add: example_storage_def example_store_def)
  have h4: "snd (get_package example_storage ''pkg'' no_options)
      = Inr \<lparr>cb_err = None, cb_result = Some example_doc, cb_uplink_errors = Some [None]\<rparr>"
    by code_simp
  have u1: "example_uplink \<in> set (permitted example_storage ''pkg'')"
    by (simp add: permitted_def example_storage_def example_config_def)
  have u2: "up_get_package example_uplink ''pkg'' no_options = (None, Some example_remote, Some ''e2'')"
    by (simp add: example_uplink_def)
  have u3: "validate_metadata (self_utils example_storage) example_remote ''pkg'' = None"
    by (simp add: example_storage_def example_utils_def example_remote_def)
  from get_package_remote_only [OF h1 h2 h3 h4] u1 u2 u3
  have "fst ` set (versions example_remote) \<subseteq> fst ` set (versions example_doc)"
    and "set (own_keys example_doc) \<subseteq> set whitelist \<union> {''_attachments''}"
    and "attachments example_doc = Some []"
    by blast+
  with h1 h2 h4 u2 show ?thesis by simp
qed

section \<open>Properties of \<open>get_tarball\<close>\<close>

lemma choose_uplink_fold:
  "fold (\<lambda>p uplink. if can_fetch_url p file_url then Some p else uplink) ups acc
     = (case filter (\<lambda>p. can_fetch_url p file_url) ups of
          [] \<Rightarrow> acc
        | m # ms \<Rightarrow> Some (last (m # ms)))"
proof (induction ups arbitrary: acc)
  case Nil
  show ?case by simp
next
  case (Cons p ups)
  show ?case
    by (simp add: Cons.IH split: list.splits)
qed

text \<open>
  C6, as the code has it. The uplink that serves a file is the last of the
  configured uplinks whose \<open>can_fetch_url\<close> holds for the url of the file; an
  uplink for that url alone is made exactly when there is none.
\<close>

theorem serve_file_last_match:
  "serve_file_uplink self file =
     (case filter (\<lambda>p. can_fetch_url p (url file)) (self_uplinks self) of
        [] \<Rightarrow> Autogenerated (url file)
      | m # ms \<Rightarrow> Configured (last (m # ms)))"
  by (simp add: serve_file_uplink_def choose_uplink_def choose_uplink_fold split: list.splits)

text \<open>Two uplinks that can both fetch the url: the second one is taken.\<close>

theorem serve_file_first_match_counterexample:
  "can_fetch_url example_uplink ''http://registry/pkg-2.1.0.tgz''
   \<and> can_fetch_url mirror_uplink ''http://registry/pkg-2.1.0.tgz''
   \<and> map upname (self_uplinks two_uplinks) = [''npmjs'', ''mirror'']
   \<and> map_server upname (serve_file_uplink two_uplinks \<lparr>url = ''http://registry/pkg-2.1.0.tgz''\<rparr>)
        = Configured ''mirror''"
  by code_simp

lemma on_event_open:
  assumes "is_open s" and "rstream_live s"
  shows "on_event self nm filename s ev = ([], Inr (emit (forward ev) s))"
  using assms by (cases ev) (simp_all add: on_event_def emit_def forward_def)

lemma remote_fallback_calls: "fst (remote_fallback self nm filename err) \<noteq> []"
  by (simp add: remote_fallback_def split: prod.splits option.splits)

lemma on_events_open:
  "is_open s \<Longrightarrow> rstream_live s
     \<Longrightarrow> on_events self nm filename s evs = ([], Inr (s\<lparr>emitted := emitted s @ map forward evs\<rparr>))"
proof (induction evs arbitrary: s)
  case Nil
  show ?case by simp
next
  case (Cons ev evs)
  from Cons.prems have "is_open (emit (forward ev) s)" and "rstream_live (emit (forward ev) s)"
    by (simp_all add: emit_def)
  from Cons.IH [OF this] Cons.prems show ?case
    by (simp add: on_event_open emit_def)
qed

lemma on_event_live:
  assumes "on_event self nm filename s ev = (calls, Inr s')" and "is_open s \<longrightarrow> rstream_live s"
  shows "is_open s' \<longrightarrow> rstream_live s'"
  using assms
  by (cases ev)
     (auto simp: on_event_def emit_def split: if_splits prod.splits sum.splits)

lemma on_events_live:
  "on_events self nm filename s evs = (calls, Inr s') \<Longrightarrow> is_open s \<longrightarrow> rstream_live s
     \<Longrightarrow> is_open s' \<longrightarrow> rstream_live s'"
proof (induction evs arbitrary: s calls)
  case Nil
  then show ?case by simp
next
  case (Cons ev evs)
  from Cons.prems(1) obtain c1 s1 c2 where
      e: "on_event self nm filename s ev = (c1, Inr s1)"
      and r: "on_events self nm filename s1 evs = (c2, Inr s')"
    by (auto split: prod.splits sum.splits)
  from on_event_live [OF e Cons.prems(2)] have "is_open s1 \<longrightarrow> rstream_live s1" .
  from Cons.IH [OF r this] show ?case .
qed

lemma on_event_falls_back:
  assumes "\<not> is_open s" and "rstream_live s" and "status e = Some 404"
  shows "fst (on_event self nm filename s (Error_event e)) = fst (remote_fallback self nm filename e)"
proof -
  obtain calls res where "remote_fallback self nm filename e = (calls, res)"
    by (cases "remote_fallback self nm filename e")
  with assms show ?thesis
    by (cases res) (simp_all add: on_event_def)
qed

lemma on_event_fallback:
  assumes "fst (on_event self nm filename s ev) \<noteq> []"
  shows "\<not> is_open s \<and> (\<exists>e. ev = Error_event e \<and> status e = Some 404)"
  using assms by (cases ev) (auto simp: on_event_def split: if_splits)

text \<open>
  C9. In a run of the handlers from the start, once the state is open every
  further event of the local stream, an error among them, is passed on to the
  output stream as it is and no call is made to the local store or to an uplink.
  A handler makes such calls (the fallback) only for an error with status 404
  in a state that is not open.
\<close>

theorem get_tarball_no_fallback_once_open:
  "(snd (get_tarball self nm filename evs0) = Inr s \<and> is_open s
      \<longrightarrow> on_events self nm filename s evs = ([], Inr (s\<lparr>emitted := emitted s @ map forward evs\<rparr>)))
   \<and> (fst (on_event self nm filename s' ev) \<noteq> []
      \<longrightarrow> \<not> is_open s' \<and> (\<exists>e. ev = Error_event e \<and> status e = Some 404))"
proof (intro conjI impI)
  assume a: "snd (get_tarball self nm filename evs0) = Inr s \<and> is_open s"
  then obtain calls where "on_events self nm filename tarball_start evs0 = (calls, Inr s)"
    by (cases "on_events self nm filename tarball_start evs0") (simp add: get_tarball_def)
  moreover have "is_open tarball_start \<longrightarrow> rstream_live tarball_start"
    by (simp add: tarball_start_def)
  ultimately have "is_open s \<longrightarrow> rstream_live s"
    by (rule on_events_live)
  with a show "on_events self nm filename s evs = ([], Inr (s\<lparr>emitted := emitted s @ map forward evs\<rparr>))"
    by (simp add: on_events_open)
next
  assume "fst (on_event self nm filename s' ev) \<noteq> []"
  then show "\<not> is_open s'" and "\<exists>e. ev = Error_event e \<and> status e = Some 404"
    by (simp_all add: on_event_fallback)
qed

theorem get_tarball_no_fallback_once_open_witness:
  "snd (get_tarball example_storage ''pkg'' ''pkg-2.1.0.tgz'' [Open_event]) = Inr opened
   \<and> is_open opened
   \<and> on_events example_storage ''pkg'' ''pkg-2.1.0.tgz'' opened
        [Content_length_event 10, Error_event (http_error 404 ''no such file'')]
      = ([], Inr (opened\<lparr>emitted := [Pipe_local, Emit_content_length 10,
                                      Emit_error (http_error 404 ''no such file'')]\<rparr>))
   \<and> fst (on_event example_storage ''pkg'' ''pkg-2.1.0.tgz'' tarball_start
            (Error_event (http_error 404 ''no such file''))) \<noteq> []
   \<and> \<not> is_open (tarball_start :: (nat, nat, nat) tarball_state)
   \<and> status (http_error 404 ''no such file'') = Some 404"
proof -
  let ?e = "http_error 404 ''no such file''"
  have h1: "snd (get_tarball example_storage ''pkg'' ''pkg-2.1.0.tgz'' [Open_event]) = Inr opened"
    by (simp add: get_tarball_def on_event_def tarball_start_def opened_def emit_def)
  have h2: "is_open opened" by (simp add: opened_def)
  have h3: "fst (on_event example_storage ''pkg'' ''pkg-2.1.0.tgz'' tarball_start (Error_event ?e)) \<noteq> []"
    using remote_fallback_calls [of example_storage "''pkg''" "''pkg-2.1.0.tgz''" ?e]
    by (simp add: on_event_falls_back tarball_start_def http_error_def)
  have m: "emitted opened @ map forward [Content_length_event 10, Error_event ?e]
      = [Pipe_local, Emit_content_length 10, Emit_error ?e]"
    by (simp add: opened_def forward_def)
  from get_tarball_no_fallback_once_open [of example_storage "''pkg''" "''pkg-2.1.0.tgz''" "[Open_event]"
      opened "[Content_length_event 10, Error_event ?e]" tarball_start "Error_event ?e"] h1 h2 h3
  have "on_events example_storage ''pkg'' ''pkg-2.1.0.tgz'' opened [Content_length_event 10, Error_event ?e]
      = ([], Inr (opened\<lparr>emitted := emitted opened @ map forward [Content_length_event 10, Error_event ?e]\<rparr>))"
    and "\<not> is_open (tarball_start :: (nat, nat, nat) tarball_state)"
    and "status ?e = Some 404"
    by auto
  with h1 h2 h3 m show ?thesis by simp
qed

section \<open>Properties of \<open>get_local\<close>\<close>

lemma on_local_package_result:
  assumes "local_get_package (self_local self) n no_options \<noteq> (None, None)"
  shows "on_local_package self n (local_get_package (self_local self) n no_options) packages
     = Inr (packages @ latest_version self n, warning self n)"
  using assms
  by (cases "local_get_package (self_local self) n no_options")
     (auto simp: on_local_package_def latest_version_def warning_def split: option.splits)

lemma is_warning_simps:
  "\<not> is_warning (Local_get_package n)" "is_warning (Logger_warn n)"
  by (simp_all add: is_warning_def)

lemma is_warning_warning: "filter is_warning (warning self n) = warning self n"
  by (simp add: warning_def is_warning_def split: prod.splits option.splits)

lemma getPackage_result:
  "\<forall>k \<in> set (n # rest). local_get_package (self_local self) k no_options \<noteq> (None, None)
     \<Longrightarrow> snd (getPackage self n rest packages)
           = Inr (None, packages @ concat (map (latest_version self) (n # rest)))
         \<and> filter is_warning (fst (getPackage self n rest packages))
           = concat (map (warning self) (n # rest))"
proof (induction rest arbitrary: n packages)
  case Nil
  then have "on_local_package self n (local_get_package (self_local self) n no_options) packages
      = Inr (packages @ latest_version self n, warning self n)"
    by (intro on_local_package_result) simp
  then show ?case
    by (subst (1 2) getPackage.simps) (simp add: is_warning_warning is_warning_simps)
next
  case (Cons m ms)
  from Cons.prems have "on_local_package self n (local_get_package (self_local self) n no_options) packages
      = Inr (packages @ latest_version self n, warning self n)"
    by (intro on_local_package_result) simp
  moreover from Cons.prems
  have "\<forall>k \<in> set (m # ms). local_get_package (self_local self) k no_options \<noteq> (None, None)"
    by simp
  from Cons.IH [OF this, of "packages @ latest_version self n"]
  have "snd (getPackage self m ms (packages @ latest_version self n))
           = Inr (None, (packages @ latest_version self n) @ concat (map (latest_version self) (m # ms)))"
    and "filter is_warning (fst (getPackage self m ms (packages @ latest_version self n)))
           = concat (map (warning self) (m # ms))"
    by simp_all
  ultimately show ?case
    by (subst (1 2) getPackage.simps)
       (auto simp: is_warning_warning is_warning_simps split: prod.splits)
qed

text \<open>
  C10. For a local store that gives a document whenever it gives no error,
  \<open>get_local\<close> calls back with no error and with the latest versions of the
  packages of the local list that were read and have one, in the order of the
  list. A name whose read gave an error adds nothing to the result and logs no
  warning; the warnings are those of the packages that were read and have no
  latest version.
\<close>

theorem get_local_result:
  assumes "\<forall>n \<in> set (localList (self_config self)).
             local_get_package (self_local self) n no_options \<noteq> (None, None)"
  shows "snd (get_local self)
           = Inr (None, concat (map (latest_version self) (localList (self_config self))))
       \<and> filter is_warning (fst (get_local self))
           = concat (map (warning self) (localList (self_config self)))
       \<and> (\<forall>n err info. local_get_package (self_local self) n no_options = (Some err, info)
            \<longrightarrow> latest_version self n = [] \<and> warning self n = [])"
proof (intro conjI allI impI)
  show "snd (get_local self) = Inr (None, concat (map (latest_version self) (localList (self_config self))))"
  proof (cases "localList (self_config self)")
    case Nil
    then show ?thesis by (simp add: get_local_def)
  next
    case (Cons n rest)
    with assms getPackage_result [of n rest self "[]"] show ?thesis
      by (simp add: get_local_def)
  qed
next
  show "filter is_warning (fst (get_local self)) = concat (map (warning self) (localList (self_config self)))"
  proof (cases "localList (self_config self)")
    case Nil
    then show ?thesis by (simp add: get_local_def)
  next
    case (Cons n rest)
    with assms getPackage_result [of n rest self "[]"] show ?thesis
      by (simp add: get_local_def)
  qed
next
  fix n err info
  assume "local_get_package (self_local self) n no_options = (Some err, info)"
  then show "latest_version self n = []" and "warning self n = []"
    by (simp_all add: latest_version_def warning_def)
qed

theorem get_local_result_witness:
  "localList (self_config listing_storage) = [''pkg'', ''gone'', ''odd'']
   \<and> local_get_package (self_local listing_storage) ''gone'' no_options = (Some (plain_error ''EIO''), None)
   \<and> get_local listing_storage
        = ([Local_get_package ''pkg'', Local_get_package ''gone'', Local_get_package ''odd'',
            Logger_warn ''odd''],
           Inr (None, [1]))
   \<and> concat (map (latest_version listing_storage) [''pkg'', ''gone'', ''odd'']) = [1]
   \<and> concat (map (warning listing_storage) [''pkg'', ''gone'', ''odd'']) = [Logger_warn ''odd'']"
proof -
  have h: "\<forall>n \<in> set (localList (self_config listing_storage)).
      local_get_package (self_local listing_storage) n no_options \<noteq> (None, None)"
    by (simp add: listing_storage_def listing_store_def)
  have l: "localList (self_config listing_storage) = [''pkg'', ''gone'', ''odd'']"
    by (simp add: listing_storage_def)
  have g: "local_get_package (self_local listing_storage) ''gone'' no_options = (Some (plain_error ''EIO''), None)"
    by (simp add: listing_storage_def listing_store_def)
  have e: "get_local listing_storage
        = ([Local_get_package ''pkg'', Local_get_package ''gone'', Local_get_package ''odd'',
            Logger_warn ''odd''],
           Inr (None, [1]))"
    by code_simp
  from get_local_result [OF h] l e
  have "concat (map (latest_version listing_storage) [''pkg'', ''gone'', ''odd'']) = [1]"
    and "concat (map (warning listing_storage) [''pkg'', ''gone'', ''odd'']) = [Logger_warn ''odd'']"
    by (simp_all add: is_warning_simps)
  with l g e show ?thesis by simp
qed

end
